theory Spec2Isabelle
  imports Complex_Main "HOL-Library.AList" "HOL-Library.List_Lexorder" "HOL-Library.Char_ord"
begin

section \<open>Common data\<close>

text \<open>
  Strings are character lists, one \<^typ>\<open>char\<close> per character of the Python \<open>str\<close>.
  A Python \<open>dict\<close> is an association list in insertion order with unique keys:
  \<^const>\<open>map_of\<close> reads it, \<^const>\<open>AList.update\<close> is \<open>d[k] = v\<close> (an existing key keeps
  its position) and \<^const>\<open>AList.delete\<close> is \<open>d.pop(k, None)\<close>.
\<close>

datatype level = DEBUG | INFO | WARNING | ERROR

text \<open>A loguru call: the level, the message template and the rendered arguments.\<close>

type_synonym log_entry = "level \<times> string \<times> string list"

text \<open>\<open>sep.join(xs)\<close>.\<close>

fun join :: "string \<Rightarrow> string list \<Rightarrow> string" where
  "join sep [] = []"
| "join sep [x] = x"
| "join sep (x # y # ys) = x @ sep @ join sep (y # ys)"

text \<open>\<open>str(n)\<close> of an integer, in decimal.\<close>

definition digit_char :: "nat \<Rightarrow> char" where
  "digit_char d = char_of (48 + d)"

function str_nat :: "nat \<Rightarrow> string" where
  "str_nat n = (if n < 10 then [digit_char n] else str_nat (n div 10) @ [digit_char (n mod 10)])"
  by pat_completeness auto
termination
  by (relation "measure id") auto

definition str_int :: "int \<Rightarrow> string" where
  "str_int i = (if i < 0 then CHR ''-'' # str_nat (nat (- i)) else str_nat (nat i))"

section \<open>Tools and the tool registry\<close>

text \<open>
  The built-in tool classes, with the constructor arguments the manager passes, and a
  plugin instance (its \<open>name\<close> attribute and the class it was built from).
\<close>

datatype tool =
    ReadFileTool string "string option"
  | WriteFileTool string "string option"
  | EditFileTool string "string option"
  | ListDirTool string "string option"
  | ExecTool string int bool
  | WebSearchTool "string option"
  | WebFetchTool
  | PluginTool string string

text \<open>
  \<open>_TOOL_NAME_MAP\<close>: from tool name to the class that implements it. Its keys are the
  known tool names.
\<close>

definition TOOL_NAME_MAP :: "(string \<times> string) list" where
  "TOOL_NAME_MAP =
    [(''read_file'', ''ReadFileTool''),
     (''write_file'', ''WriteFileTool''),
     (''edit_file'', ''EditFileTool''),
     (''list_dir'', ''ListDirTool''),
     (''exec'', ''ExecTool''),
     (''web_search'', ''WebSearchTool''),
     (''web_fetch'', ''WebFetchTool'')]"

text \<open>
  Modelled from the spec: the \<open>name\<close> attribute of a tool. The built-in classes are not
  part of the sources at hand; each carries the name \<open>_TOOL_NAME_MAP\<close> gives its class.
\<close>

fun tool_name :: "tool \<Rightarrow> string" where
  "tool_name (ReadFileTool _ _) = ''read_file''"
| "tool_name (WriteFileTool _ _) = ''write_file''"
| "tool_name (EditFileTool _ _) = ''edit_file''"
| "tool_name (ListDirTool _ _) = ''list_dir''"
| "tool_name (ExecTool _ _ _) = ''exec''"
| "tool_name (WebSearchTool _) = ''web_search''"
| "tool_name WebFetchTool = ''web_fetch''"
| "tool_name (PluginTool n _) = n"

text \<open>
  Modelled from the spec: the tool registry (class \<open>ToolRegistry\<close>, not part of the sources
  at hand), "an in-memory mapping from tool name to Tool instance": \<open>register\<close> inserts or
  overwrites by name, \<open>has\<close> is the existence check, \<open>get_definitions\<close> exports one
  definition per tool in registration order (a definition is represented by the tool's
  name), and \<open>execute\<close> looks the tool up and invokes it, "catching any failure raised by
  the tool body and converting it to a descriptive error string rather than
  propagating".
\<close>

type_synonym tool_registry = "(string \<times> tool) list"

definition ToolRegistry :: tool_registry where
  "ToolRegistry = []"

definition register :: "tool \<Rightarrow> tool_registry \<Rightarrow> tool_registry" where
  "register t reg = AList.update (tool_name t) t reg"

definition has :: "tool_registry \<Rightarrow> string \<Rightarrow> bool" where
  "has reg n = (map_of reg n \<noteq> None)"

definition get_definitions :: "tool_registry \<Rightarrow> string list" where
  "get_definitions reg = map fst reg"

text \<open>
  A tool body acts on the outside world \<open>'w\<close> (files, processes, the network) and returns
  its result string or raises (\<open>Inl\<close> carries \<open>str(e)\<close>).
\<close>

type_synonym 'w tool_body = "tool \<Rightarrow> string \<Rightarrow> 'w \<Rightarrow> (string + string) \<times> 'w"

definition execute :: "'w tool_body \<Rightarrow> tool_registry \<Rightarrow> string \<Rightarrow> string \<Rightarrow> 'w \<Rightarrow> string \<times> 'w" where
  "execute body reg n arguments w =
    (case map_of reg n of
       None \<Rightarrow> (''Error: Tool '' @ n @ '' not found'', w)
     | Some t \<Rightarrow>
        (case body t arguments w of
           (Inr result, w') \<Rightarrow> (result, w')
         | (Inl e, w') \<Rightarrow> (''Error executing '' @ n @ '': '' @ e, w')))"

section \<open>The subagent manager\<close>

record ExecToolConfig =
  enabled :: bool
  timeout :: int

text \<open>
  The profile configuration shape: an optional model, the iteration bound, an optional
  tool whitelist and an optional list of skills.
\<close>

record profile_config =
  pc_model :: "string option"
  pc_max_iterations :: int
  pc_tools :: "string list option"
  pc_skills :: "string list option"

text \<open>The configuration fields of \<open>SubagentManager\<close>, as \<open>__init__\<close> stores them.\<close>

record manager =
  workspace :: string
  model :: string
  temperature :: real
  max_tokens :: int
  brave_api_key :: "string option"
  exec_config :: ExecToolConfig
  restrict_to_workspace :: bool
  subagent_profiles :: "(string \<times> profile_config) list"
  default_max_iterations :: int

subsection \<open>Capability assembly\<close>

definition allowed_dir :: "manager \<Rightarrow> string option" where
  "allowed_dir m = (if restrict_to_workspace m then Some (workspace m) else None)"

definition make_ExecTool :: "manager \<Rightarrow> tool" where
  "make_ExecTool m = ExecTool (workspace m) (timeout (exec_config m)) (restrict_to_workspace m)"

text \<open>\<open>_register_default_subagent_tools\<close>: the default tool set (no message, no spawn).\<close>

definition register_default_subagent_tools :: "manager \<Rightarrow> tool_registry" where
  "register_default_subagent_tools m =
    (let tools = ToolRegistry;
         tools = register (ReadFileTool (workspace m) (allowed_dir m)) tools;
         tools = register (WriteFileTool (workspace m) (allowed_dir m)) tools;
         tools = register (EditFileTool (workspace m) (allowed_dir m)) tools;
         tools = register (ListDirTool (workspace m) (allowed_dir m)) tools;
         tools = (if enabled (exec_config m) then register (make_ExecTool m) tools else tools);
         tools = register (WebSearchTool (brave_api_key m)) tools;
         tools = register WebFetchTool tools
     in tools)"

text \<open>The \<open>if\<close>/\<open>elif\<close> chain of \<open>_register_profile_tools\<close> for one name.\<close>

definition register_by_name :: "manager \<Rightarrow> string \<Rightarrow> tool_registry \<Rightarrow> tool_registry" where
  "register_by_name m n tools =
    (if n = ''read_file'' then register (ReadFileTool (workspace m) (allowed_dir m)) tools
     else if n = ''write_file'' then register (WriteFileTool (workspace m) (allowed_dir m)) tools
     else if n = ''edit_file'' then register (EditFileTool (workspace m) (allowed_dir m)) tools
     else if n = ''list_dir'' then register (ListDirTool (workspace m) (allowed_dir m)) tools
     else if n = ''exec'' then register (make_ExecTool m) tools
     else if n = ''web_search'' then register (WebSearchTool (brave_api_key m)) tools
     else if n = ''web_fetch'' then register WebFetchTool tools
     else tools)"

text \<open>
  The loop of \<open>_register_profile_tools\<close> over the whitelist, from a registry and the log
  written so far: an unknown name is skipped with a warning, \<open>exec\<close> is skipped with a
  debug line while the global flag is off.
\<close>

fun register_profile_loop ::
  "manager \<Rightarrow> string list \<Rightarrow> tool_registry \<times> log_entry list \<Rightarrow> tool_registry \<times> log_entry list" where
  "register_profile_loop m [] acc = acc"
| "register_profile_loop m (n # ns) (tools, lg) =
    (if n \<notin> set (map fst TOOL_NAME_MAP) then
       register_profile_loop m ns
         (tools, lg @ [(WARNING, ''Unknown tool '{}' in subagent profile, skipping'', [n])])
     else if n = ''exec'' \<and> \<not> enabled (exec_config m) then
       register_profile_loop m ns
         (tools, lg @ [(DEBUG, ''Tool 'exec' requested by profile but globally disabled, skipping'', [])])
     else register_profile_loop m ns (register_by_name m n tools, lg))"

definition register_profile_tools :: "manager \<Rightarrow> string list \<Rightarrow> tool_registry \<times> log_entry list" where
  "register_profile_tools m tool_names = register_profile_loop m tool_names (ToolRegistry, [])"

text \<open>
  The head of \<open>_run_subagent\<close>: the profile is resolved only for a non-empty profile name
  (\<open>dict.get\<close>), and the whitelist is used only when it is present and non-empty.
\<close>

definition resolve_profile :: "manager \<Rightarrow> string option \<Rightarrow> profile_config option" where
  "resolve_profile m profile =
    (case profile of
       None \<Rightarrow> None
     | Some p \<Rightarrow> if p = [] then None else map_of (subagent_profiles m) p)"

definition build_tools :: "manager \<Rightarrow> profile_config option \<Rightarrow> tool_registry \<times> log_entry list" where
  "build_tools m pc =
    (case pc of
       None \<Rightarrow> (register_default_subagent_tools m, [])
     | Some c \<Rightarrow>
        (case pc_tools c of
           None \<Rightarrow> (register_default_subagent_tools m, [])
         | Some ns \<Rightarrow>
            if ns = [] then (register_default_subagent_tools m, [])
            else register_profile_tools m ns))"


subsection \<open>The provider contract and the message list\<close>

text \<open>
  Modelled from the spec: the provider's response (class \<open>LLMResponse\<close>, not part of the
  sources at hand) "exposes: textual content (nullable), an explicit boolean has tool
  calls, and, when true, an ordered sequence of tool-call records each with an opaque
  identity, a tool name, and a structured argument mapping". The argument mapping is
  held as its JSON text, which is what \<open>json.dumps\<close> returns for it.
\<close>

record tool_call =
  tc_id :: string
  tc_name :: string
  tc_arguments :: string

record response =
  content :: "string option"
  has_tool_calls :: bool
  tool_calls :: "tool_call list"

definition json_dumps :: "string \<Rightarrow> string" where
  "json_dumps arguments = arguments"

text \<open>The dictionary recorded for a tool call in the assistant turn.\<close>

record tool_call_dict =
  tcd_id :: string
  tcd_type :: string
  tcd_function_name :: string
  tcd_function_arguments :: string

text \<open>
  A message of the list, by its role: system and user carry the content, assistant the
  content and its tool calls, tool the call's id, the tool's name and the result.
\<close>

datatype message =
    System string
  | User string
  | Assistant string "tool_call_dict list"
  | ToolResult string string string

record chat_request =
  cr_messages :: "message list"
  cr_tools :: "string list"
  cr_model :: string
  cr_temperature :: real
  cr_max_tokens :: int

text \<open>
  What a run uses of its surroundings, over the outside world \<open>'w\<close>: the provider's
  \<open>chat\<close> (which returns a response or raises, \<open>Inl\<close> carrying \<open>str(e)\<close>), the bodies of the
  tools, the skills loader (\<open>SkillsLoader.load_skills_for_context\<close>, which may raise) and
  the clock, read as the formatted time and the time zone name.
\<close>

record 'w env =
  chat :: "chat_request \<Rightarrow> 'w \<Rightarrow> (string + response) \<times> 'w"
  tool_body :: "'w tool_body"
  load_skills :: "string list \<Rightarrow> 'w \<Rightarrow> (string + string) \<times> 'w"
  clock :: "'w \<Rightarrow> string \<times> string"

subsection \<open>The system prompt\<close>

definition nl :: string where
  "nl = [CHR 0x0A]"

text \<open>The capability sections of \<open>_build_subagent_prompt\<close>.\<close>

definition can_do :: "bool \<Rightarrow> bool \<Rightarrow> bool \<Rightarrow> string list" where
  "can_do has_exec has_web has_files =
    (if has_files then [''- Read and write files in the workspace''] else [])
    @ (if has_exec then [''- Execute shell commands''] else [])
    @ (if has_web then [''- Search the web and fetch web pages''] else [])
    @ [''- Complete the task thoroughly'']"

definition cannot_do :: "bool \<Rightarrow> bool \<Rightarrow> bool \<Rightarrow> string list" where
  "cannot_do has_exec has_web has_files =
    (if has_files then [] else [''- Read or write files (no file tools available)''])
    @ (if has_exec then [] else [''- Execute shell commands (no exec tool available)''])
    @ (if has_web then [] else [''- Search the web or fetch web pages (no web tools available)''])
    @ [''- Send messages directly to users (no message tool available)'',
       ''- Spawn other subagents'',
       ''- Access the main agent's conversation history'']"

text \<open>
  \<open>_build_subagent_prompt\<close>, with the clock's reading as arguments: the lines of the
  formatted string it returns, and the string. The task text is a parameter of the
  source function that the prompt does not use.
\<close>

definition prompt_lines ::
  "manager \<Rightarrow> string \<Rightarrow> bool \<Rightarrow> bool \<Rightarrow> bool \<Rightarrow> string \<Rightarrow> string \<Rightarrow> string \<Rightarrow> string list" where
  "prompt_lines m task has_exec has_web has_files skills_content now tzname =
    (let tz = (if tzname = [] then ''UTC'' else tzname);
         can_section = join nl (can_do has_exec has_web has_files);
         cannot_section = join nl (cannot_do has_exec has_web has_files);
         skills_section =
           (if skills_content = [] then []
            else nl @ nl @ ''## Pre-loaded Skills'' @ nl @ skills_content)
     in
       [''# Subagent'',
        [],
        ''## Current Time'',
        now @ '' ('' @ tz @ '')'',
        [],
        ''You are a subagent spawned by the main agent to complete a specific task.'',
        [],
        ''## Rules'',
        ''1. Stay focused - complete only the assigned task, nothing else'',
        ''2. Your final response will be reported back to the main agent'',
        ''3. Do not initiate conversations or take on side tasks'',
        ''4. Be concise but informative in your findings'',
        [],
        ''## What You Can Do'',
        can_section,
        [],
        ''## What You Cannot Do'',
        cannot_section,
        [],
        ''## Workspace'',
        ''Your workspace is at: '' @ workspace m,
        ''Skills are available at: '' @ workspace m
          @ ''/skills/ (read SKILL.md files as needed)'' @ skills_section,
        [],
        ''When you have completed the task, provide a clear summary of your findings or actions.''])"

definition build_subagent_prompt ::
  "manager \<Rightarrow> string \<Rightarrow> bool \<Rightarrow> bool \<Rightarrow> bool \<Rightarrow> string \<Rightarrow> string \<Rightarrow> string \<Rightarrow> string" where
  "build_subagent_prompt m task has_exec has_web has_files skills_content now tzname =
    join nl (prompt_lines m task has_exec has_web has_files skills_content now tzname)"

text \<open>The capability flags \<open>_run_subagent\<close> reads off the registry: exec, web, files.\<close>

definition capability_flags :: "tool_registry \<Rightarrow> bool \<times> bool \<times> bool" where
  "capability_flags tools =
    (has tools ''exec'',
     has tools ''web_search'' \<or> has tools ''web_fetch'',
     has tools ''read_file'' \<or> has tools ''write_file'')"

definition system_prompt_of ::
  "manager \<Rightarrow> string \<Rightarrow> tool_registry \<Rightarrow> string \<Rightarrow> string \<times> string \<Rightarrow> string" where
  "system_prompt_of m task tools skills_content time =
    (case capability_flags tools of
       (has_exec, has_web, has_files) \<Rightarrow>
         build_subagent_prompt m task has_exec has_web has_files skills_content
           (fst time) (snd time))"



subsection \<open>The bounded loop\<close>

record 'w loop_state =
  ls_messages :: "message list"
  ls_log :: "log_entry list"
  ls_world :: 'w

definition tool_call_dict_of :: "tool_call \<Rightarrow> tool_call_dict" where
  "tool_call_dict_of tc =
    \<lparr>tcd_id = tc_id tc, tcd_type = ''function'', tcd_function_name = tc_name tc,
     tcd_function_arguments = json_dumps (tc_arguments tc)\<rparr>"

text \<open>The inner \<open>for\<close> loop: each tool call is executed in order and its result appended.\<close>

fun execute_tool_calls ::
  "'w env \<Rightarrow> tool_registry \<Rightarrow> string \<Rightarrow> tool_call list \<Rightarrow> 'w loop_state \<Rightarrow> 'w loop_state" where
  "execute_tool_calls e tools task_id [] s = s"
| "execute_tool_calls e tools task_id (tc # tcs) s =
    (let args_str = json_dumps (tc_arguments tc);
         lg = ls_log s @ [(DEBUG, ''Subagent [{}] executing: {} with arguments: {}'',
                [task_id, tc_name tc, args_str])];
         (result, w) = execute (tool_body e) tools (tc_name tc) (tc_arguments tc) (ls_world s)
     in execute_tool_calls e tools task_id tcs
          \<lparr>ls_messages = ls_messages s @ [ToolResult (tc_id tc) (tc_name tc) result],
           ls_log = lg, ls_world = w\<rparr>)"

text \<open>
  One pass through the body of the \<open>while\<close> loop: the provider raises, or the response
  has tool calls and the loop goes on, or it has none and the loop breaks with the
  response's content as \<open>final_result\<close>.
\<close>

datatype 'w pass = Raise string "'w loop_state" | Break "string option" "'w loop_state"
  | Continue "'w loop_state"

definition request_of :: "manager \<Rightarrow> tool_registry \<Rightarrow> string \<Rightarrow> 'w loop_state \<Rightarrow> chat_request" where
  "request_of m tools mdl s =
    \<lparr>cr_messages = ls_messages s, cr_tools = get_definitions tools, cr_model = mdl,
     cr_temperature = temperature m, cr_max_tokens = max_tokens m\<rparr>"

definition loop_body ::
  "'w env \<Rightarrow> manager \<Rightarrow> tool_registry \<Rightarrow> string \<Rightarrow> string \<Rightarrow> 'w loop_state \<Rightarrow> 'w pass" where
  "loop_body e m tools task_id mdl s =
    (case chat e (request_of m tools mdl s) (ls_world s) of
       (Inl err, w) \<Rightarrow> Raise err (s\<lparr>ls_world := w\<rparr>)
     | (Inr resp, w) \<Rightarrow>
         if has_tool_calls resp then
           Continue (execute_tool_calls e tools task_id (tool_calls resp)
             (s\<lparr>ls_messages := ls_messages s @
                  [Assistant (case content resp of None \<Rightarrow> [] | Some c \<Rightarrow> c)
                     (map tool_call_dict_of (tool_calls resp))],
                ls_world := w\<rparr>))
         else Break (content resp) (s\<lparr>ls_world := w\<rparr>))"

text \<open>
  The \<open>while iteration < max_iterations\<close> loop. The result is what was raised (\<open>Inl\<close>) or
  \<open>final_result\<close> (\<open>Inr\<close>), the value of \<open>iteration\<close> and the state when the loop was left.
\<close>

function agent_loop ::
  "'w env \<Rightarrow> manager \<Rightarrow> tool_registry \<Rightarrow> string \<Rightarrow> string \<Rightarrow> int \<Rightarrow> int \<Rightarrow> 'w loop_state
    \<Rightarrow> (string + string option) \<times> int \<times> 'w loop_state" where
  "agent_loop e m tools task_id mdl max_iterations iteration s =
    (if iteration < max_iterations then
       (case loop_body e m tools task_id mdl s of
          Raise err s' \<Rightarrow> (Inl err, iteration + 1, s')
        | Break final_result s' \<Rightarrow> (Inr final_result, iteration + 1, s')
        | Continue s' \<Rightarrow> agent_loop e m tools task_id mdl max_iterations (iteration + 1) s')
     else (Inr None, iteration, s))"
  by pat_completeness auto
termination
  by (relation "measure (\<lambda>(e, m, tools, task_id, mdl, max_iterations, iteration, s).
        nat (max_iterations - iteration))") auto

declare agent_loop.simps [simp del]

text \<open>The assistant turns of a message list: one is appended per pass that goes on.\<close>

fun is_assistant :: "message \<Rightarrow> bool" where
  "is_assistant (Assistant _ _) = True"
| "is_assistant _ = False"

definition assistant_turns :: "message list \<Rightarrow> nat" where
  "assistant_turns msgs = length (filter is_assistant msgs)"


subsection \<open>Announcing the result\<close>

text \<open>
  Modelled from the spec: the inbound event (class \<open>InboundMessage\<close>) and the bus (class
  \<open>MessageBus\<close>), neither part of the sources at hand. An event has an origination channel
  tag, a sender tag, a composite destination key and textual content; \<open>publish_inbound\<close> is
  "fire-and-forget from the core's perspective" and puts the event at the end of the
  bus's queue.
\<close>

record InboundMessage =
  im_channel :: string
  im_sender_id :: string
  im_chat_id :: string
  im_content :: string

type_synonym bus = "InboundMessage list"

definition publish_inbound :: "InboundMessage \<Rightarrow> bus \<Rightarrow> bus" where
  "publish_inbound msg b = b @ [msg]"

text \<open>The \<open>origin\<close> dictionary of a run: its \<open>channel\<close> and its \<open>chat_id\<close>.\<close>

type_synonym origin = "string \<times> string"

definition status_text :: "string \<Rightarrow> string" where
  "status_text status = (if status = ''ok'' then ''completed successfully'' else ''failed'')"

definition announce_content :: "string \<Rightarrow> string \<Rightarrow> string \<Rightarrow> string \<Rightarrow> string" where
  "announce_content label task result status =
    join nl
      [''[Subagent '' @ [CHR 0x27] @ label @ [CHR 0x27] @ '' '' @ status_text status @ '']'',
       [],
       ''Task: '' @ task,
       [],
       ''Result:'',
       result,
       [],
       ''Summarize this naturally for the user. Keep it brief (1-2 sentences). ''
         @ ''Do not mention technical details like '' @ [CHR 0x22] @ ''subagent''
         @ [CHR 0x22] @ '' or task IDs.'']"

text \<open>\<open>_announce_result\<close>, on the bus and the log.\<close>

definition announce_result ::
  "string \<Rightarrow> string \<Rightarrow> string \<Rightarrow> string \<Rightarrow> origin \<Rightarrow> string \<Rightarrow> bus \<times> log_entry list
    \<Rightarrow> bus \<times> log_entry list" where
  "announce_result task_id label task result orig status st =
    (let msg = \<lparr>im_channel = ''system'', im_sender_id = ''subagent'',
                im_chat_id = fst orig @ '':'' @ snd orig,
                im_content = announce_content label task result status\<rparr>
     in (publish_inbound msg (fst st),
         snd st @ [(DEBUG, ''Subagent [{}] announced result to {}:{}'',
                    [task_id, fst orig, snd orig])]))"

subsection \<open>One run\<close>

definition effective_model :: "manager \<Rightarrow> profile_config option \<Rightarrow> string" where
  "effective_model m pc =
    (case pc of
       None \<Rightarrow> model m
     | Some c \<Rightarrow> (case pc_model c of None \<Rightarrow> model m | Some x \<Rightarrow> if x = [] then model m else x))"

definition effective_max_iterations :: "manager \<Rightarrow> profile_config option \<Rightarrow> int" where
  "effective_max_iterations m pc =
    (case pc of None \<Rightarrow> default_max_iterations m | Some c \<Rightarrow> pc_max_iterations c)"

definition load_profile_skills ::
  "'w env \<Rightarrow> profile_config option \<Rightarrow> 'w \<Rightarrow> (string + string) \<times> 'w" where
  "load_profile_skills e pc w =
    (case pc of
       None \<Rightarrow> (Inr [], w)
     | Some c \<Rightarrow>
        (case pc_skills c of
           None \<Rightarrow> (Inr [], w)
         | Some sk \<Rightarrow> if sk = [] then (Inr [], w) else load_skills e sk w))"

text \<open>
  The \<open>try\<close> block of \<open>_run_subagent\<close> up to the end of the loop. It gives what was raised
  (\<open>Inl\<close>) or \<open>final_result\<close> (\<open>Inr\<close>), the iteration bound, the value of \<open>iteration\<close> and the
  messages, log and world at that point.
\<close>

definition run_try ::
  "'w env \<Rightarrow> manager \<Rightarrow> string \<Rightarrow> string \<Rightarrow> string option \<Rightarrow> log_entry list \<Rightarrow> 'w
    \<Rightarrow> (string + string option) \<times> int \<times> int \<times> 'w loop_state" where
  "run_try e m task_id task profile lg w =
    (let profile_config = resolve_profile m profile;
         mdl = effective_model m profile_config;
         max_iterations = effective_max_iterations m profile_config;
         (tools, tools_log) = build_tools m profile_config
     in case load_profile_skills e profile_config w of
          (Inl err, w1) \<Rightarrow>
            (Inl err, max_iterations, 0,
             \<lparr>ls_messages = [], ls_log = lg @ tools_log, ls_world = w1\<rparr>)
        | (Inr skills_content, w1) \<Rightarrow>
            (let system_prompt = system_prompt_of m task tools skills_content (clock e w1);
                 messages = [System system_prompt, User task]
             in case agent_loop e m tools task_id mdl max_iterations 0
                       \<lparr>ls_messages = messages, ls_log = lg @ tools_log, ls_world = w1\<rparr> of
                  (r, iteration, s) \<Rightarrow> (r, max_iterations, iteration, s)))"

definition exhausted_text :: "int \<Rightarrow> string" where
  "exhausted_text max_iterations =
    ''Task did NOT complete: the subagent ran out of iterations ''
    @ ''(max '' @ str_int max_iterations @ ''). The task may need to be broken into ''
    @ ''smaller pieces, or the iteration limit needs to be increased.''"

text \<open>
  How \<open>_run_subagent\<close> ends, from what the \<open>try\<close> block gave: the result text and the status
  passed to \<open>_announce_result\<close>, and the line logged before it. A \<open>final_result\<close> of \<open>None\<close>
  is the out-of-iterations branch, any other the success branch, and an exception the
  \<open>except\<close> branch.
\<close>

definition conclude :: "(string + string option) \<Rightarrow> string \<Rightarrow> int \<Rightarrow> string \<times> string \<times> log_entry" where
  "conclude r task_id max_iterations =
    (case r of
       Inr None \<Rightarrow>
         (exhausted_text max_iterations, ''error'',
          (WARNING, ''Subagent [{}] exhausted max iterations ({})'',
           [task_id, str_int max_iterations]))
     | Inr (Some final_result) \<Rightarrow>
         (final_result, ''ok'', (INFO, ''Subagent [{}] completed successfully'', [task_id]))
     | Inl err \<Rightarrow>
         (''Error: '' @ err, ''error'', (ERROR, ''Subagent [{}] failed: {}'', [task_id, err])))"

text \<open>The result text and the status a run passes to \<open>_announce_result\<close>.\<close>

definition announced ::
  "'w env \<Rightarrow> manager \<Rightarrow> string \<Rightarrow> string \<Rightarrow> string option \<Rightarrow> 'w \<Rightarrow> string \<times> string" where
  "announced e m task_id task profile w =
    (case run_try e m task_id task profile [] w of
       (r, max_iterations, iteration, s) \<Rightarrow>
         (case conclude r task_id max_iterations of (result, status, entry) \<Rightarrow> (result, status)))"

text \<open>\<open>_run_subagent\<close>, on the bus, the log and the world.\<close>

definition run_subagent ::
  "'w env \<Rightarrow> manager \<Rightarrow> string \<Rightarrow> string \<Rightarrow> string \<Rightarrow> origin \<Rightarrow> string option
    \<Rightarrow> bus \<times> log_entry list \<times> 'w \<Rightarrow> bus \<times> log_entry list \<times> 'w" where
  "run_subagent e m task_id task label orig profile st =
    (case st of (b, lg, w) \<Rightarrow>
      (case run_try e m task_id task profile
              (lg @ [(INFO, ''Subagent [{}] starting task: {}'', [task_id, label])]) w of
         (r, max_iterations, iteration, s) \<Rightarrow>
           (case conclude r task_id max_iterations of
              (result, status, entry) \<Rightarrow>
                (case announce_result task_id label task result orig status
                        (b, ls_log s @ [entry]) of
                   (b', lg') \<Rightarrow> (b', lg', ls_world s)))))"

subsection \<open>Spawning and the live-task map\<close>

text \<open>
  A background task as \<open>asyncio\<close> has it: the arguments of its \<open>_run_subagent\<close> call and
  where it stands. A task is pending until its coroutine has returned; its done
  callbacks run after that.
\<close>

datatype task_state = Pending | Finished | CallbacksRun

record bg_task =
  bt_task_id :: string
  bt_task :: string
  bt_label :: string
  bt_origin :: origin
  bt_profile :: "string option"
  bt_state :: task_state

text \<open>
  The manager with its surroundings: the configuration, the live-task map
  \<open>_running_tasks\<close> (from task id to the task, named by its position among the tasks
  created), every background task created so far, the bus, the log and the world.
\<close>

record 'w system =
  sys_manager :: manager
  running_tasks :: "(string \<times> nat) list"
  tasks :: "bg_task list"
  sys_bus :: bus
  sys_log :: "log_entry list"
  sys_world :: 'w

definition display_label_of :: "string \<Rightarrow> string option \<Rightarrow> string" where
  "display_label_of task label =
    (case label of
       Some l \<Rightarrow> if l \<noteq> [] then l else take 30 task @ (if length task > 30 then ''...'' else [])
     | None \<Rightarrow> take 30 task @ (if length task > 30 then ''...'' else []))"

definition available_profiles :: "manager \<Rightarrow> string" where
  "available_profiles m =
    (let joined = join '', '' (sort (map fst (subagent_profiles m)))
     in if joined = [] then ''(none)'' else joined)"

text \<open>
  The check at the head of \<open>spawn\<close>: a non-empty profile name that is not a key of
  \<open>subagent_profiles\<close> gives the error message returned.
\<close>

definition profile_error :: "manager \<Rightarrow> string option \<Rightarrow> string option" where
  "profile_error m profile =
    (case profile of
       None \<Rightarrow> None
     | Some p \<Rightarrow>
        if p \<noteq> [] \<and> p \<notin> set (map fst (subagent_profiles m)) then
          Some (''Error: Unknown profile '' @ [CHR 0x27] @ p @ [CHR 0x27]
                 @ ''. Available profiles: '' @ available_profiles m)
        else None)"

text \<open>
  \<open>spawn\<close>. The string \<open>uuid\<close> is \<open>str(uuid.uuid4())\<close>, drawn by the caller's surroundings.
  The result is the returned message and the system after the call.
\<close>

definition spawn ::
  "string \<Rightarrow> string option \<Rightarrow> string \<Rightarrow> string \<Rightarrow> string option \<Rightarrow> string \<Rightarrow> 'w system
    \<Rightarrow> string \<times> 'w system" where
  "spawn task label origin_channel origin_chat_id profile uuid s =
    (case profile_error (sys_manager s) profile of
       Some err \<Rightarrow> (err, s)
     | None \<Rightarrow>
       (let task_id = take 8 uuid;
            display_label = display_label_of task label;
            orig = (origin_channel, origin_chat_id);
            bg = \<lparr>bt_task_id = task_id, bt_task = task, bt_label = display_label,
                  bt_origin = orig, bt_profile = profile, bt_state = Pending\<rparr>;
            profile_hint = (case profile of
                              None \<Rightarrow> []
                            | Some p \<Rightarrow> if p = [] then [] else '', profile: '' @ p)
        in (''Subagent ['' @ display_label @ ''] started (id: '' @ task_id
              @ ''). I'll notify you when it completes.'',
            s\<lparr>running_tasks := AList.update task_id (length (tasks s)) (running_tasks s),
              tasks := tasks s @ [bg],
              sys_log := sys_log s @
                [(INFO, ''Spawned subagent [{}{}]: {}'', [task_id, profile_hint, display_label])]\<rparr>)))"

definition get_running_count :: "'w system \<Rightarrow> nat" where
  "get_running_count s = length (running_tasks s)"

text \<open>
  What happens to the manager: a call of \<open>spawn\<close>, the coroutine of a pending task running
  to its end (one step: a run shares only the bus, the log and the world with the
  others, and adds to them), and the done callback of a finished task, which pops the
  task's id from the live-task map.
\<close>

datatype event =
    Spawn string "string option" string string "string option" string
  | Run nat
  | DoneCallback nat

definition run_task :: "'w env \<Rightarrow> nat \<Rightarrow> 'w system \<Rightarrow> 'w system" where
  "run_task e h s =
    (if h < length (tasks s) \<and> bt_state (tasks s ! h) = Pending then
       (let t = tasks s ! h in
        case run_subagent e (sys_manager s) (bt_task_id t) (bt_task t) (bt_label t)
               (bt_origin t) (bt_profile t) (sys_bus s, sys_log s, sys_world s) of
          (b, lg, w) \<Rightarrow>
            s\<lparr>tasks := (tasks s)[h := t\<lparr>bt_state := Finished\<rparr>],
              sys_bus := b, sys_log := lg, sys_world := w\<rparr>)
     else s)"

definition done_callback :: "nat \<Rightarrow> 'w system \<Rightarrow> 'w system" where
  "done_callback h s =
    (if h < length (tasks s) \<and> bt_state (tasks s ! h) = Finished then
       s\<lparr>running_tasks := AList.delete (bt_task_id (tasks s ! h)) (running_tasks s),
         tasks := (tasks s)[h := (tasks s ! h)\<lparr>bt_state := CallbacksRun\<rparr>]\<rparr>
     else s)"

fun step :: "'w env \<Rightarrow> 'w system \<Rightarrow> event \<Rightarrow> 'w system" where
  "step e s (Spawn task label origin_channel origin_chat_id profile uuid) =
     snd (spawn task label origin_channel origin_chat_id profile uuid s)"
| "step e s (Run h) = run_task e h s"
| "step e s (DoneCallback h) = done_callback h s"

text \<open>
  A spawn draws a fresh id when its id is not a key of the live-task map; a sequence of
  events has fresh ids when each of its spawns does, in the system it is made in.
\<close>

fun fresh_id :: "'w system \<Rightarrow> event \<Rightarrow> bool" where
  "fresh_id s (Spawn task label origin_channel origin_chat_id profile uuid) =
     (take 8 uuid \<notin> set (map fst (running_tasks s)))"
| "fresh_id s (Run h) = True"
| "fresh_id s (DoneCallback h) = True"

fun fresh_ids :: "'w env \<Rightarrow> 'w system \<Rightarrow> event list \<Rightarrow> bool" where
  "fresh_ids e s [] = True"
| "fresh_ids e s (ev # evs) = (fresh_id s ev \<and> fresh_ids e (step e s ev) evs)"

definition initial :: "manager \<Rightarrow> 'w \<Rightarrow> 'w system" where
  "initial m w =
    \<lparr>sys_manager = m, running_tasks = [], tasks = [], sys_bus = [], sys_log = [],
     sys_world = w\<rparr>"


section \<open>The plugin loader\<close>

text \<open>The context passed to plugin tool constructors (dataclass \<open>ToolContext\<close>).\<close>

record ToolContext =
  tc_workspace :: string
  tc_allowed_dir :: "string option"
  tc_working_dir :: string
  tc_exec_timeout :: int
  tc_restrict_to_workspace :: bool
  tc_brave_api_key :: "string option"

text \<open>
  An instance of a plugin class, as far as the loader looks at it: \<open>Named t\<close> is the tool
  \<open>t\<close>, whose \<open>name\<close> reads as \<open>tool_name t\<close>; \<open>Unnamed err\<close> is an instance on which reading
  \<open>name\<close>, or using it as a key of the mapping, raises \<open>err\<close>.
\<close>

datatype plugin_instance = Named tool | Unnamed string

text \<open>
  What calling a class gives: the instance, a \<open>TypeError\<close>, or another exception (each
  with \<open>str(e)\<close>).
\<close>

datatype construction = Built plugin_instance | TypeError string | Failure string

text \<open>
  A class among the members of an imported plugin module: its \<open>__name__\<close>, whether it is
  a subclass of \<open>Tool\<close> other than \<open>Tool\<close> itself, whether it is abstract, and what calling
  it with \<open>context=\<close> and with no argument gives.
\<close>

record plugin_class =
  cls_name :: string
  is_tool_subclass :: bool
  is_abstract :: bool
  with_context :: "ToolContext \<Rightarrow> construction"
  no_arg :: construction

text \<open>
  A file \<open>*.py\<close> of the tools directory: its name, whether \<open>spec_from_file_location\<close> gives
  a module spec with a loader, and what executing the module gives: the exception it
  raises (an \<open>Exception\<close>: what is not one, as \<open>SystemExit\<close>, passes through the loader and
  is not modelled), or its classes in the order of \<open>inspect.getmembers\<close>.
\<close>

record plugin_file =
  pf_name :: string
  pf_spec_ok :: bool
  pf_module :: "string + plugin_class list"

text \<open>
  What the loader finds at \<open>tools_dir\<close>: \<open>is_dir()\<close> returns false (nothing there, or not a
  directory); or \<open>is_dir()\<close> raises, as it does with \<open>PermissionError\<close> on a path
  that cannot be reached (an exception from listing the directory leaves \<open>load\<close> the same
  way); or it is a directory, with the files \<open>glob("*.py")\<close> yields, in any order. The
  outcome of the imports is given, so the entry the loader adds to \<open>sys.path\<close> for them
  is not modelled.
\<close>

datatype tools_dir = NotADirectory | Unreadable string | Directory "plugin_file list"

record PluginLoader =
  plugin_context :: ToolContext
  cache :: "(string \<times> tool) list option"

text \<open>\<open>_instantiate\<close>: first with \<open>context=\<close>, then, on a \<open>TypeError\<close>, with no argument.\<close>

definition instantiate :: "ToolContext \<Rightarrow> plugin_class \<Rightarrow> string + plugin_instance" where
  "instantiate ctx c =
    (case with_context c ctx of
       Built t \<Rightarrow> Inr t
     | Failure err \<Rightarrow> Inl err
     | TypeError _ \<Rightarrow>
        (case no_arg c of
           Built t \<Rightarrow> Inr t
         | Failure err \<Rightarrow> Inl err
         | TypeError err \<Rightarrow> Inl err))"

text \<open>
  The lines the loader logs for a duplicate name, for a file that raised (on import, or
  later in \<open>_load_file\<close>) and for a failed construction.
\<close>

definition duplicate_line :: "string \<Rightarrow> string \<Rightarrow> log_entry" where
  "duplicate_line n fname =
    (DEBUG, ''Duplicate plugin tool name '{}' in {} -- skipped'', [n, fname])"

definition import_failure_line :: "string \<Rightarrow> string \<Rightarrow> log_entry" where
  "import_failure_line fname err = (WARNING, ''Failed to load plugin {}: {}'', [fname, err])"

definition construction_failure_line :: "string \<Rightarrow> string \<Rightarrow> string \<Rightarrow> log_entry" where
  "construction_failure_line cname fname err =
    (WARNING, ''Failed to instantiate {} from {}: {}'', [cname, fname, err])"

text \<open>\<open>str.startswith\<close>.\<close>

definition startswith :: "string \<Rightarrow> string \<Rightarrow> bool" where
  "startswith s p = (take (length p) s = p)"

text \<open>
  One pass of the loop of \<open>_load_file\<close> over the classes of a module, on the mapping
  \<open>tools\<close> and the log. The construction is inside a \<open>try\<close>; reading the name and looking
  it up are not, so \<open>Inl\<close> is the exception that leaves the loop there.
\<close>

definition collect_one ::
  "ToolContext \<Rightarrow> string \<Rightarrow> plugin_class \<Rightarrow> (string \<times> tool) list \<times> log_entry list
    \<Rightarrow> string + (string \<times> tool) list \<times> log_entry list" where
  "collect_one ctx fname c acc =
    (if \<not> is_tool_subclass c then Inr acc
     else if is_abstract c then Inr acc
     else
       (case instantiate ctx c of
          Inl err \<Rightarrow> Inr (fst acc, snd acc @ [construction_failure_line (cls_name c) fname err])
        | Inr (Unnamed err) \<Rightarrow> Inl err
        | Inr (Named instance) \<Rightarrow>
            (let name = tool_name instance in
             if name \<in> set (map fst (fst acc)) then
               Inr (fst acc, snd acc @ [duplicate_line name fname])
             else Inr (AList.update name instance (fst acc), snd acc))))"

text \<open>
  The loop: the exception that leaves it, if any, with the mapping and the log as they
  are then (the mapping is changed in place, so what was entered before stays).
\<close>

fun collect ::
  "ToolContext \<Rightarrow> string \<Rightarrow> plugin_class list \<Rightarrow> (string \<times> tool) list \<times> log_entry list
    \<Rightarrow> string option \<times> (string \<times> tool) list \<times> log_entry list" where
  "collect ctx fname [] acc = (None, acc)"
| "collect ctx fname (c # cs) acc =
    (case collect_one ctx fname c acc of
       Inl err \<Rightarrow> (Some err, acc)
     | Inr acc' \<Rightarrow> collect ctx fname cs acc')"

text \<open>
  \<open>_load_file\<close>: the exception that leaves it, if any (from executing the module or from
  the loop), with the mapping and the log as they are then.
\<close>

definition load_file ::
  "ToolContext \<Rightarrow> plugin_file \<Rightarrow> (string \<times> tool) list \<times> log_entry list
    \<Rightarrow> string option \<times> (string \<times> tool) list \<times> log_entry list" where
  "load_file ctx f acc =
    (if \<not> pf_spec_ok f then
       (None, fst acc, snd acc @ [(WARNING, ''Cannot create module spec for {}'', [pf_name f])])
     else
       (case pf_module f of
          Inl err \<Rightarrow> (Some err, acc)
        | Inr classes \<Rightarrow> collect ctx (pf_name f) classes acc))"

text \<open>
  One pass of the loop of \<open>load\<close> over the sorted files, with its \<open>try\<close> around the file,
  and the loop.
\<close>

definition load_one ::
  "ToolContext \<Rightarrow> plugin_file \<Rightarrow> (string \<times> tool) list \<times> log_entry list
    \<Rightarrow> (string \<times> tool) list \<times> log_entry list" where
  "load_one ctx f acc =
    (if startswith (pf_name f) ''_'' then acc
     else
       (case load_file ctx f acc of
          (None, acc') \<Rightarrow> acc'
        | (Some err, acc') \<Rightarrow> (fst acc', snd acc' @ [import_failure_line (pf_name f) err])))"

fun load_files ::
  "ToolContext \<Rightarrow> plugin_file list \<Rightarrow> (string \<times> tool) list \<times> log_entry list
    \<Rightarrow> (string \<times> tool) list \<times> log_entry list" where
  "load_files ctx [] acc = acc"
| "load_files ctx (f # fs) acc = load_files ctx fs (load_one ctx f acc)"

text \<open>
  \<open>load\<close>: the mapping returned, or the exception that leaves the call (that of \<open>is_dir()\<close>,
  which is outside every \<open>try\<close>); the loader after the call; and the lines logged by the
  call.
\<close>

definition load ::
  "tools_dir \<Rightarrow> PluginLoader
    \<Rightarrow> (string + (string \<times> tool) list) \<times> PluginLoader \<times> log_entry list" where
  "load dir ld =
    (case cache ld of
       Some cached \<Rightarrow> (Inr cached, ld, [])
     | None \<Rightarrow>
        (case dir of
           Unreadable err \<Rightarrow> (Inl err, ld, [])
         | NotADirectory \<Rightarrow> (Inr [], ld\<lparr>cache := Some []\<rparr>, [])
         | Directory files \<Rightarrow>
            (case load_files (plugin_context ld) (sort_key pf_name files) ([], []) of
               (tools, lg) \<Rightarrow> (Inr tools, ld\<lparr>cache := Some tools\<rparr>, lg))))"

text \<open>The loop of \<open>register_into\<close> over the items of the loaded mapping.\<close>

fun register_items ::
  "(string \<times> tool) list \<Rightarrow> tool_registry \<times> log_entry list \<Rightarrow> tool_registry \<times> log_entry list" where
  "register_items [] acc = acc"
| "register_items ((name, t) # items) (registry, lg) =
    (if has registry name then
       register_items items
         (registry, lg @ [(DEBUG, ''Plugin tool '{}' skipped -- built-in takes priority'', [name])])
     else
       register_items items
         (register t registry, lg @ [(INFO, ''Registered plugin tool '{}'' @ [CHR 0x27], [name])]))"

text \<open>
  \<open>register_into\<close>: the registry, the loader and the log after the call, and the exception
  that leaves the call, if \<open>load\<close> raises.
\<close>

definition register_into ::
  "tools_dir \<Rightarrow> PluginLoader \<Rightarrow> tool_registry
    \<Rightarrow> tool_registry \<times> PluginLoader \<times> log_entry list \<times> string option" where
  "register_into dir ld registry =
    (case load dir ld of
       (Inl err, ld', lg) \<Rightarrow> (registry, ld', lg, Some err)
     | (Inr items, ld', lg) \<Rightarrow>
         (case register_items items (registry, lg) of
            (registry', lg') \<Rightarrow> (registry', ld', lg', None)))"

section \<open>Notions used in the statements\<close>

text \<open>The whitelist names \<open>_register_profile_tools\<close> lets through.\<close>

definition admitted :: "manager \<Rightarrow> string \<Rightarrow> bool" where
  "admitted m n =
    (n \<in> set (map fst TOOL_NAME_MAP) \<and> \<not> (n = ''exec'' \<and> \<not> enabled (exec_config m)))"

definition unknown_warning :: "string \<Rightarrow> log_entry" where
  "unknown_warning n = (WARNING, ''Unknown tool '{}' in subagent profile, skipping'', [n])"

text \<open>
  A concrete class whose instance is made but cannot be named, and the classes of a
  module that come before the first such class: the ones the loop of \<open>_load_file\<close> gets
  through.
\<close>

definition name_raises :: "ToolContext \<Rightarrow> plugin_class \<Rightarrow> bool" where
  "name_raises ctx c =
    (is_tool_subclass c \<and> \<not> is_abstract c
     \<and> (case instantiate ctx c of Inr (Unnamed err) \<Rightarrow> True | _ \<Rightarrow> False))"

definition reached :: "ToolContext \<Rightarrow> plugin_class list \<Rightarrow> plugin_class list" where
  "reached ctx classes = takeWhile (\<lambda>c. \<not> name_raises ctx c) classes"

text \<open>
  The tools a file contributes when it is looked at on its own, as (name, instance) in
  the order of its classes: none for a helper file, a file without a module spec or a
  file whose import raises; otherwise one per concrete \<open>Tool\<close> subclass that the loop
  reaches and whose construction succeeds.
\<close>

definition class_instances :: "ToolContext \<Rightarrow> plugin_class \<Rightarrow> (string \<times> tool) list" where
  "class_instances ctx c =
    (if is_tool_subclass c \<and> \<not> is_abstract c then
       (case instantiate ctx c of
          Inl err \<Rightarrow> []
        | Inr (Unnamed err) \<Rightarrow> []
        | Inr (Named t) \<Rightarrow> [(tool_name t, t)])
     else [])"

definition file_instances :: "ToolContext \<Rightarrow> plugin_file \<Rightarrow> (string \<times> tool) list" where
  "file_instances ctx f =
    (if startswith (pf_name f) ''_'' \<or> \<not> pf_spec_ok f then []
     else (case pf_module f of
             Inl err \<Rightarrow> []
           | Inr classes \<Rightarrow> concat (map (class_instances ctx) (reached ctx classes))))"

text \<open>A file whose import raises, and a file with the classes whose construction raises taken out.\<close>

definition import_raises :: "plugin_file \<Rightarrow> bool" where
  "import_raises f = (case pf_module f of Inl err \<Rightarrow> True | Inr classes \<Rightarrow> False)"

definition construction_raises :: "ToolContext \<Rightarrow> plugin_class \<Rightarrow> bool" where
  "construction_raises ctx c = (case instantiate ctx c of Inl err \<Rightarrow> True | Inr t \<Rightarrow> False)"

definition without_failing_classes :: "ToolContext \<Rightarrow> plugin_file \<Rightarrow> plugin_file" where
  "without_failing_classes ctx f =
    (case pf_module f of
       Inl err \<Rightarrow> f
     | Inr classes \<Rightarrow>
         f\<lparr>pf_module := Inr (filter (\<lambda>c. \<not> construction_raises ctx c) classes)\<rparr>)"

text \<open>Every key of a mapping is the name of the tool it maps to.\<close>

definition keyed_by_name :: "(string \<times> tool) list \<Rightarrow> bool" where
  "keyed_by_name items = list_all (\<lambda>(n, t). tool_name t = n) items"

text \<open>
  The live-task map and the bus agree with the tasks created: the bus holds one
  message per task that is no longer pending; the id of every task whose done callback
  has not run is mapped to that task; and every entry of the map is the id of a task
  whose done callback has not run.
\<close>

definition consistent :: "'w system \<Rightarrow> bool" where
  "consistent s =
    (length (sys_bus s) = length (filter (\<lambda>t. bt_state t \<noteq> Pending) (tasks s))
     \<and> (\<forall>h < length (tasks s). bt_state (tasks s ! h) \<noteq> CallbacksRun \<longrightarrow>
           map_of (running_tasks s) (bt_task_id (tasks s ! h)) = Some h)
     \<and> (\<forall>tid h. map_of (running_tasks s) tid = Some h \<longrightarrow>
           h < length (tasks s) \<and> bt_task_id (tasks s ! h) = tid
           \<and> bt_state (tasks s ! h) \<noteq> CallbacksRun))"

text \<open>
  What the loop of \<open>_load_file\<close> does with one instance: it is entered under its name
  unless the name is taken.
\<close>

definition keep_first :: "string \<times> tool \<Rightarrow> (string \<times> tool) list \<Rightarrow> (string \<times> tool) list" where
  "keep_first item tools =
    (if fst item \<in> set (map fst tools) then tools
     else AList.update (fst item) (snd item) tools)"

text \<open>The tools a list of files contributes, in the order of the files and their classes.\<close>

definition discovered :: "ToolContext \<Rightarrow> plugin_file list \<Rightarrow> (string \<times> tool) list" where
  "discovered ctx files = concat (map (file_instances ctx) files)"

text \<open>The names a list of items holds, and a loader whose cache, if set, is keyed by name.\<close>

definition names_of :: "(string \<times> tool) list \<Rightarrow> string set" where
  "names_of items = fst ` set items"

definition cache_keyed :: "PluginLoader \<Rightarrow> bool" where
  "cache_keyed ld = (case cache ld of None \<Rightarrow> True | Some cached \<Rightarrow> keyed_by_name cached)"


section \<open>Concrete inputs\<close>

text \<open>
  A manager with shell execution globally disabled and two profiles: \<open>research\<close> with
  the whitelist \<open>web_search\<close> and three iterations, and \<open>ops\<close>, whose whitelist asks for
  \<open>exec\<close>, an unknown name and \<open>read_file\<close>.
\<close>

definition research :: profile_config where
  "research =
    \<lparr>pc_model = None, pc_max_iterations = 3, pc_tools = Some [''web_search''],
     pc_skills = None\<rparr>"

definition ops :: profile_config where
  "ops =
    \<lparr>pc_model = None, pc_max_iterations = 2,
     pc_tools = Some [''exec'', ''bogus'', ''read_file''], pc_skills = None\<rparr>"

definition manager0 :: manager where
  "manager0 =
    \<lparr>workspace = ''/w'', model = ''m'', temperature = 0, max_tokens = 4096,
     brave_api_key = None, exec_config = \<lparr>enabled = False, timeout = 60\<rparr>,
     restrict_to_workspace = True,
     subagent_profiles = [(''research'', research), (''ops'', ops)],
     default_max_iterations = 2\<rparr>"

text \<open>
  Surroundings whose world counts the provider's calls: tools and the skills loader
  always succeed, the clock is fixed, and the provider is given.
\<close>

definition env_with :: "(chat_request \<Rightarrow> (string + response)) \<Rightarrow> nat env" where
  "env_with provider =
    \<lparr>chat = (\<lambda>req w. (provider req, w + 1)),
     tool_body = (\<lambda>t arguments w. (Inr ''result'', w)),
     load_skills = (\<lambda>sk w. (Inr ''skills'', w)),
     clock = (\<lambda>w. (''2026-01-01 00:00 (Thursday)'', ''UTC''))\<rparr>"

text \<open>
  Four scripted providers: one that always asks for a tool, one that answers at once,
  one that answers with neither tool calls nor content, and one that raises.
\<close>

definition tool_response :: response where
  "tool_response =
    \<lparr>content = None, has_tool_calls = True,
     tool_calls = [\<lparr>tc_id = ''c1'', tc_name = ''web_search'', tc_arguments = ''{}''\<rparr>]\<rparr>"

definition final_response :: response where
  "final_response = \<lparr>content = Some ''done'', has_tool_calls = False, tool_calls = []\<rparr>"


definition env_tools :: "nat env" where
  "env_tools = env_with (\<lambda>req. Inr tool_response)"

definition env_final :: "nat env" where
  "env_final = env_with (\<lambda>req. Inr final_response)"


definition env_boom :: "nat env" where
  "env_boom = env_with (\<lambda>req. Inl ''boom'')"

definition loop_state0 :: "nat loop_state" where
  "loop_state0 = \<lparr>ls_messages = [System ''prompt'', User ''task''], ls_log = [], ls_world = 0\<rparr>"

text \<open>
  Two spawns with different ids, the two runs, and the done callback of the first.
\<close>

definition events0 :: "event list" where
  "events0 =
    [Spawn ''find it'' (Some ''search'') ''cli'' ''direct'' (Some ''research'') ''1234abcd-0000'',
     Spawn ''fix it'' None ''cli'' ''direct'' None ''9876fedc-0000'',
     Run 0, Run 1, DoneCallback 0]"

text \<open>
  A tools directory, listed out of order: \<open>b.py\<close> and \<open>a.py\<close> both define a tool named
  \<open>dice\<close>, \<open>a.py\<close> also a tool named \<open>exec\<close> and a class whose construction raises,
  \<open>_base.py\<close> is a helper and \<open>Z.py\<close> raises on import. The classes take no context.
\<close>

definition context0 :: ToolContext where
  "context0 =
    \<lparr>tc_workspace = ''/w'', tc_allowed_dir = None, tc_working_dir = ''/w'',
     tc_exec_timeout = 60, tc_restrict_to_workspace = False, tc_brave_api_key = None\<rparr>"

definition plain_class :: "string \<Rightarrow> string \<Rightarrow> plugin_class" where
  "plain_class cname n =
    \<lparr>cls_name = cname, is_tool_subclass = True, is_abstract = False,
     with_context = (\<lambda>ctx. TypeError ''unexpected keyword argument''),
     no_arg = Built (Named (PluginTool n cname))\<rparr>"

definition broken_class :: plugin_class where
  "broken_class =
    \<lparr>cls_name = ''Broken'', is_tool_subclass = True, is_abstract = False,
     with_context = (\<lambda>ctx. Failure ''no key''),
     no_arg = Built (Named (PluginTool ''broken'' ''Broken''))\<rparr>"

definition file_a :: plugin_file where
  "file_a =
    \<lparr>pf_name = ''a.py'', pf_spec_ok = True,
     pf_module = Inr [broken_class, plain_class ''a.Dice'' ''dice'', plain_class ''a.Exec'' ''exec'']\<rparr>"

definition file_b :: plugin_file where
  "file_b = \<lparr>pf_name = ''b.py'', pf_spec_ok = True, pf_module = Inr [plain_class ''b.Dice'' ''dice'']\<rparr>"

definition file_base :: plugin_file where
  "file_base =
    \<lparr>pf_name = ''_base.py'', pf_spec_ok = True, pf_module = Inr [plain_class ''Base'' ''base'']\<rparr>"

definition file_z :: plugin_file where
  "file_z = \<lparr>pf_name = ''Z.py'', pf_spec_ok = True, pf_module = Inl ''boom''\<rparr>"

definition tools_dir0 :: tools_dir where
  "tools_dir0 = Directory [file_b, file_a, file_base, file_z]"

definition loader0 :: PluginLoader where
  "loader0 = \<lparr>plugin_context = context0, cache = None\<rparr>"

definition builtins0 :: tool_registry where
  "builtins0 = [(''exec'', ExecTool ''/w'' 60 False)]"

text \<open>
  A file with three concrete classes, the second of which makes an instance whose
  \<open>name\<close> raises; and two spawns whose ids agree on their first eight characters, with the
  run and the done callback of the first.
\<close>

definition unnamed_class :: plugin_class where
  "unnamed_class =
    \<lparr>cls_name = ''Second'', is_tool_subclass = True, is_abstract = False,
     with_context = (\<lambda>ctx. Built (Unnamed ''no name'')), no_arg = Built (Unnamed ''no name'')\<rparr>"

definition file_c :: plugin_file where
  "file_c =
    \<lparr>pf_name = ''c.py'', pf_spec_ok = True,
     pf_module = Inr [plain_class ''First'' ''first'', unnamed_class, plain_class ''Third'' ''third'']\<rparr>"

definition events_clash :: "event list" where
  "events_clash =
    [Spawn ''find it'' None ''cli'' ''direct'' None ''1234abcd-0000'',
     Spawn ''fix it'' None ''cli'' ''direct'' None ''1234abcd-1111'',
     Run 0, DoneCallback 0]"


section \<open>Capability assembly: the exec gate and unknown whitelist names\<close>

lemma has_register: "has (register t reg) n = (n = tool_name t \<or> has reg n)"
  by (auto simp: has_def register_def update_conv')

lemma has_empty: "\<not> has ToolRegistry n"
  by (simp add: has_def ToolRegistry_def)

lemma known_names:
  "set (map fst TOOL_NAME_MAP) =
    {''read_file'', ''write_file'', ''edit_file'', ''list_dir'', ''exec'', ''web_search'',
     ''web_fetch''}"
  by (simp add: TOOL_NAME_MAP_def)

lemma has_register_by_name:
  "has (register_by_name m n tools) x =
    (has tools x \<or> (x = n \<and> n \<in> set (map fst TOOL_NAME_MAP)))"
  unfolding known_names register_by_name_def
  by (simp add: has_register make_ExecTool_def del: One_nat_def) blast

lemma fst_register_profile_loop:
  "fst (register_profile_loop m ns (tools, lg)) =
    fold (register_by_name m) (filter (admitted m) ns) tools"
  by (induction ns arbitrary: tools lg) (simp_all add: admitted_def)

lemma has_fold_register_by_name:
  "has (fold (register_by_name m) ns tools) x =
    (has tools x \<or> (x \<in> set ns \<and> x \<in> set (map fst TOOL_NAME_MAP)))"
  by (induction ns arbitrary: tools) (auto simp: has_register_by_name)

lemma has_register_profile_tools:
  "has (fst (register_profile_tools m ns)) x = (x \<in> set ns \<and> admitted m x)"
  unfolding register_profile_tools_def fst_register_profile_loop has_fold_register_by_name
  by (auto simp: admitted_def has_empty)

lemma warnings_register_profile_loop:
  "filter (\<lambda>e. fst e = WARNING) (snd (register_profile_loop m ns (tools, lg))) =
    filter (\<lambda>e. fst e = WARNING) lg
    @ map unknown_warning (filter (\<lambda>n. n \<notin> set (map fst TOOL_NAME_MAP)) ns)"
  by (induction ns arbitrary: tools lg) (simp_all add: unknown_warning_def)

lemma warnings_register_profile_tools:
  "filter (\<lambda>e. fst e = WARNING) (snd (register_profile_tools m ns)) =
    map unknown_warning (filter (\<lambda>n. n \<notin> set (map fst TOOL_NAME_MAP)) ns)"
  by (simp add: register_profile_tools_def warnings_register_profile_loop)

lemma has_register_default_subagent_tools:
  "has (register_default_subagent_tools m) ''exec'' = enabled (exec_config m)"
  by (simp add: register_default_subagent_tools_def Let_def has_register has_empty
      make_ExecTool_def)

lemma admitted_filter_known:
  "filter (admitted m) (filter (\<lambda>n. n \<in> set (map fst TOOL_NAME_MAP)) ns) = filter (admitted m) ns"
  unfolding filter_filter
  by (rule filter_cong [OF refl]) (unfold admitted_def, blast)

lemma admitted_filter_exec:
  "\<not> enabled (exec_config m) \<Longrightarrow>
    filter (admitted m) (filter (\<lambda>x. x \<noteq> ''exec'') ns) = filter (admitted m) ns"
  unfolding filter_filter
  by (rule filter_cong [OF refl]) (unfold admitted_def, blast)

lemma register_profile_tools_without_exec:
  assumes "\<not> enabled (exec_config m)"
  shows "fst (register_profile_tools m (filter (\<lambda>x. x \<noteq> ''exec'') ns)) =
    fst (register_profile_tools m ns)"
  unfolding register_profile_tools_def fst_register_profile_loop
  by (simp only: admitted_filter_exec [OF assms])

lemma register_profile_tools_known:
  "fst (register_profile_tools m (filter (\<lambda>n. n \<in> set (map fst TOOL_NAME_MAP)) ns)) =
    fst (register_profile_tools m ns)"
  unfolding register_profile_tools_def fst_register_profile_loop
  by (simp only: admitted_filter_known)

lemma build_tools_whitelist:
  "pc_tools c = Some ns \<Longrightarrow> ns \<noteq> [] \<Longrightarrow> build_tools m (Some c) = register_profile_tools m ns"
  by (simp add: build_tools_def)

text \<open>
  C5. Take a profile with the whitelist \<open>ns\<close>. If \<open>ns\<close> contains \<open>exec\<close> and the global exec
  flag is off, the registry built for the run has no \<open>exec\<close> tool and is the registry of
  the whitelist without \<open>exec\<close>. Every name of \<open>ns\<close> that is not a known tool name is absent
  from the registry and has its warning in the log; the registry of a non-empty
  whitelist is the registry of its known names; and the warnings logged are those of
  the unknown names and no others (nothing is raised: the registry is always built,
  and dropping \<open>exec\<close> warns of nothing).
\<close>

theorem profile_whitelist_gating:
  assumes "pc_tools c = Some ns"
  shows "(''exec'' \<in> set ns \<and> \<not> enabled (exec_config m) \<longrightarrow>
            \<not> has (fst (build_tools m (Some c))) ''exec''
            \<and> fst (build_tools m (Some c)) =
                fst (register_profile_tools m (filter (\<lambda>x. x \<noteq> ''exec'') ns)))
         \<and> (\<forall>n \<in> set ns. n \<notin> set (map fst TOOL_NAME_MAP) \<longrightarrow>
               \<not> has (fst (build_tools m (Some c))) n
               \<and> unknown_warning n \<in> set (snd (build_tools m (Some c))))
         \<and> (ns \<noteq> [] \<longrightarrow>
               fst (build_tools m (Some c)) =
                 fst (register_profile_tools m
                        (filter (\<lambda>n. n \<in> set (map fst TOOL_NAME_MAP)) ns)))
         \<and> filter (\<lambda>e. fst e = WARNING) (snd (build_tools m (Some c))) =
             map unknown_warning (filter (\<lambda>n. n \<notin> set (map fst TOOL_NAME_MAP)) ns)"
proof (cases "ns = []")
  case True
  with assms show ?thesis by (simp add: build_tools_def)
next
  case False
  note bt = build_tools_whitelist [OF assms False, of m]
  have exec_gate:
    "\<not> has (fst (register_profile_tools m ns)) ''exec''
     \<and> fst (register_profile_tools m ns) =
         fst (register_profile_tools m (filter (\<lambda>x. x \<noteq> ''exec'') ns))"
    if "\<not> enabled (exec_config m)"
    using that register_profile_tools_without_exec [of m ns]
    by (simp add: has_register_profile_tools admitted_def)
  have unknown:
    "\<not> has (fst (register_profile_tools m ns)) n
     \<and> unknown_warning n \<in> set (snd (register_profile_tools m ns))"
    if "n \<in> set ns" "n \<notin> set (map fst TOOL_NAME_MAP)" for n
  proof -
    have "unknown_warning n \<in>
        set (map unknown_warning (filter (\<lambda>n. n \<notin> set (map fst TOOL_NAME_MAP)) ns))"
      using that by simp
    then have "unknown_warning n \<in>
        set (filter (\<lambda>e. fst e = WARNING) (snd (register_profile_tools m ns)))"
      by (simp only: warnings_register_profile_tools)
    then show ?thesis
      using that by (simp add: has_register_profile_tools admitted_def)
  qed
  have known:
    "fst (register_profile_tools m ns) =
      fst (register_profile_tools m (filter (\<lambda>n. n \<in> set (map fst TOOL_NAME_MAP)) ns))"
    by (simp only: register_profile_tools_known)
  show ?thesis
    unfolding bt
  proof (intro conjI impI ballI)
    assume "''exec'' \<in> set ns \<and> \<not> enabled (exec_config m)"
    then have off: "\<not> enabled (exec_config m)" ..
    from exec_gate [OF off] show "\<not> has (fst (register_profile_tools m ns)) ''exec''" ..
    from exec_gate [OF off] show "fst (register_profile_tools m ns) =
        fst (register_profile_tools m (filter (\<lambda>x. x \<noteq> ''exec'') ns))" ..
  next
    fix n assume "n \<in> set ns" "n \<notin> set (map fst TOOL_NAME_MAP)"
    from unknown [OF this] show "\<not> has (fst (register_profile_tools m ns)) n" ..
  next
    fix n assume "n \<in> set ns" "n \<notin> set (map fst TOOL_NAME_MAP)"
    from unknown [OF this]
    show "unknown_warning n \<in> set (snd (register_profile_tools m ns))" ..
  next
    show "fst (register_profile_tools m ns) =
      fst (register_profile_tools m (filter (\<lambda>n. n \<in> set (map fst TOOL_NAME_MAP)) ns))"
      by (rule known)
  next
    show "filter (\<lambda>e. fst e = WARNING) (snd (register_profile_tools m ns)) =
        map unknown_warning (filter (\<lambda>n. n \<notin> set (map fst TOOL_NAME_MAP)) ns)"
      by (rule warnings_register_profile_tools)
  qed
qed

theorem profile_whitelist_gating_witness:
  "pc_tools ops = Some [''exec'', ''bogus'', ''read_file'']
   \<and> \<not> enabled (exec_config manager0)
   \<and> \<not> has (fst (build_tools manager0 (Some ops))) ''exec''
   \<and> \<not> has (fst (build_tools manager0 (Some ops))) ''bogus''
   \<and> unknown_warning ''bogus'' \<in> set (snd (build_tools manager0 (Some ops)))"
proof -
  have tools: "pc_tools ops = Some [''exec'', ''bogus'', ''read_file'']"
    by (simp add: ops_def)
  have off: "\<not> enabled (exec_config manager0)"
    by (simp add: manager0_def)
  have bogus: "''bogus'' \<notin> set (map fst TOOL_NAME_MAP)"
    by (simp add: TOOL_NAME_MAP_def)
  have mem: "''exec'' \<in> set [''exec'', ''bogus'', ''read_file'']"
    "''bogus'' \<in> set [''exec'', ''bogus'', ''read_file'']"
    by simp_all
  note h = profile_whitelist_gating [OF tools, of manager0]
  from h mem(1) off have "\<not> has (fst (build_tools manager0 (Some ops))) ''exec''"
    by blast
  moreover from h mem(2) bogus
  have "\<not> has (fst (build_tools manager0 (Some ops))) ''bogus''
      \<and> unknown_warning ''bogus'' \<in> set (snd (build_tools manager0 (Some ops)))"
    by blast
  ultimately show ?thesis using tools off by blast
qed


section \<open>The bounded loop and how a run ends\<close>

lemma loop_body_break:
  assumes "chat e (request_of m tools mdl s) (ls_world s) = (Inr r, w)" "\<not> has_tool_calls r"
  shows "loop_body e m tools task_id mdl s = Break (content r) (s\<lparr>ls_world := w\<rparr>)"
  using assms by (simp add: loop_body_def)

lemma agent_loop_break:
  assumes "iteration < max_iterations"
    and "chat e (request_of m tools mdl s) (ls_world s) = (Inr r, w)"
    and "\<not> has_tool_calls r"
  shows "agent_loop e m tools task_id mdl max_iterations iteration s =
    (Inr (content r), iteration + 1, s\<lparr>ls_world := w\<rparr>)"
  using assms(1) by (subst agent_loop.simps) (simp add: loop_body_break [OF assms(2,3)])

lemma agent_loop_done:
  "\<not> iteration < max_iterations \<Longrightarrow>
    agent_loop e m tools task_id mdl max_iterations iteration s = (Inr None, iteration, s)"
  by (subst agent_loop.simps) simp

lemma execute_tool_calls_assistant_turns:
  "assistant_turns (ls_messages (execute_tool_calls e tools task_id tcs s)) =
    assistant_turns (ls_messages s)"
  by (induction tcs arbitrary: s) (simp_all add: assistant_turns_def split: prod.splits)

lemma loop_body_continue:
  assumes "fst (chat e (request_of m tools mdl s) (ls_world s)) = Inr r" "has_tool_calls r"
  shows "\<exists>s'. loop_body e m tools task_id mdl s = Continue s'
    \<and> assistant_turns (ls_messages s') = assistant_turns (ls_messages s) + 1"
proof -
  obtain w where c: "chat e (request_of m tools mdl s) (ls_world s) = (Inr r, w)"
    using assms(1) by (cases "chat e (request_of m tools mdl s) (ls_world s)") simp
  have "loop_body e m tools task_id mdl s =
      Continue (execute_tool_calls e tools task_id (tool_calls r)
        (s\<lparr>ls_messages := ls_messages s @
             [Assistant (case content r of None \<Rightarrow> [] | Some c \<Rightarrow> c)
                (map tool_call_dict_of (tool_calls r))],
           ls_world := w\<rparr>))"
    using c assms(2) by (simp add: loop_body_def)
  then show ?thesis
    by (simp add: execute_tool_calls_assistant_turns) (simp add: assistant_turns_def)
qed

lemma agent_loop_exhausts:
  assumes always: "\<forall>req w. \<exists>r. fst (chat e req w) = Inr r \<and> has_tool_calls r"
  shows "iteration \<le> max_iterations \<Longrightarrow>
    \<exists>s'. agent_loop e m tools task_id mdl max_iterations iteration s = (Inr None, max_iterations, s')
      \<and> assistant_turns (ls_messages s') =
          assistant_turns (ls_messages s) + nat (max_iterations - iteration)"
proof (induction "nat (max_iterations - iteration)" arbitrary: iteration s)
  case 0
  then have "\<not> iteration < max_iterations" "iteration = max_iterations" by simp_all
  then show ?case by (simp add: agent_loop_done)
next
  case (Suc n)
  then have lt: "iteration < max_iterations" by simp
  from always obtain r
    where r: "fst (chat e (request_of m tools mdl s) (ls_world s)) = Inr r" "has_tool_calls r"
    by blast
  from loop_body_continue [OF r] obtain s1
    where s1: "loop_body e m tools task_id mdl s = Continue s1"
      "assistant_turns (ls_messages s1) = assistant_turns (ls_messages s) + 1"
    by blast
  have n: "n = nat (max_iterations - (iteration + 1))" using Suc.hyps(2) by simp
  from Suc.hyps(1) [OF n, of s1] lt obtain s'
    where s': "agent_loop e m tools task_id mdl max_iterations (iteration + 1) s1 =
        (Inr None, max_iterations, s')"
      "assistant_turns (ls_messages s') =
        assistant_turns (ls_messages s1) + nat (max_iterations - (iteration + 1))"
    by auto
  have "agent_loop e m tools task_id mdl max_iterations iteration s =
      agent_loop e m tools task_id mdl max_iterations (iteration + 1) s1"
    using lt s1(1) by (subst agent_loop.simps) simp
  moreover have "assistant_turns (ls_messages s') =
      assistant_turns (ls_messages s) + nat (max_iterations - iteration)"
    using s'(2) s1(2) lt by simp
  ultimately show ?case using s'(1) by simp
qed

lemma conclude_completed:
  "conclude (Inr (Some final_result)) task_id max_iterations =
    (final_result, ''ok'', (INFO, ''Subagent [{}] completed successfully'', [task_id]))"
  by (simp add: conclude_def)

lemma conclude_exhausted:
  "conclude (Inr None) task_id max_iterations =
    (exhausted_text max_iterations, ''error'',
     (WARNING, ''Subagent [{}] exhausted max iterations ({})'', [task_id, str_int max_iterations]))"
  by (simp add: conclude_def)

lemma conclude_failed:
  "conclude (Inl err) task_id max_iterations =
    (''Error: '' @ err, ''error'', (ERROR, ''Subagent [{}] failed: {}'', [task_id, err]))"
  by (simp add: conclude_def)

text \<open>
  C1. Let the iteration bound be at least one and let the loop start, as in
  \<open>_run_subagent\<close>, with \<open>iteration = 0\<close>. If the provider's first response has no tool calls
  and the content \<open>text\<close>, the loop ends with \<open>final_result = text\<close> and \<open>iteration = 1\<close>, in
  the state it started in but for the world after that one call, and the run ends in
  the success branch (status \<open>ok\<close>, logged as completed). If every call of the provider
  returns a response with tool calls, the loop ends with no final result and
  \<open>iteration = max_iterations\<close>, having appended \<open>max_iterations\<close> assistant turns, and the
  run ends in the out-of-iterations branch.
\<close>

theorem loop_termination:
  assumes "1 \<le> max_iterations"
  shows "(chat e (request_of m tools mdl s) (ls_world s) = (Inr r, w) \<and> \<not> has_tool_calls r
            \<and> content r = Some text \<longrightarrow>
            agent_loop e m tools task_id mdl max_iterations 0 s =
              (Inr (Some text), 1, s\<lparr>ls_world := w\<rparr>)
            \<and> conclude (Inr (Some text)) task_id max_iterations =
                (text, ''ok'', (INFO, ''Subagent [{}] completed successfully'', [task_id])))
       \<and> ((\<forall>req w. \<exists>r. fst (chat e req w) = Inr r \<and> has_tool_calls r) \<longrightarrow>
            (\<exists>s'. agent_loop e m tools task_id mdl max_iterations 0 s =
                    (Inr None, max_iterations, s')
                  \<and> assistant_turns (ls_messages s') =
                      assistant_turns (ls_messages s) + nat max_iterations)
            \<and> conclude (Inr None) task_id max_iterations =
                (exhausted_text max_iterations, ''error'',
                 (WARNING, ''Subagent [{}] exhausted max iterations ({})'',
                  [task_id, str_int max_iterations])))"
proof (intro conjI impI)
  assume a: "chat e (request_of m tools mdl s) (ls_world s) = (Inr r, w) \<and> \<not> has_tool_calls r
    \<and> content r = Some text"
  from assms have "0 < max_iterations" by simp
  from agent_loop_break [OF this, of e m tools mdl s r w task_id] a
  show "agent_loop e m tools task_id mdl max_iterations 0 s =
      (Inr (Some text), 1, s\<lparr>ls_world := w\<rparr>)"
    by simp
  show "conclude (Inr (Some text)) task_id max_iterations =
      (text, ''ok'', (INFO, ''Subagent [{}] completed successfully'', [task_id]))"
    by (rule conclude_completed)
next
  assume always: "\<forall>req w. \<exists>r. fst (chat e req w) = Inr r \<and> has_tool_calls r"
  from assms have "0 \<le> max_iterations" by simp
  from agent_loop_exhausts [OF always this, of m tools task_id mdl s]
  show "\<exists>s'. agent_loop e m tools task_id mdl max_iterations 0 s = (Inr None, max_iterations, s')
      \<and> assistant_turns (ls_messages s') = assistant_turns (ls_messages s) + nat max_iterations"
    by simp
  show "conclude (Inr None) task_id max_iterations =
      (exhausted_text max_iterations, ''error'',
       (WARNING, ''Subagent [{}] exhausted max iterations ({})'',
        [task_id, str_int max_iterations]))"
    by (rule conclude_exhausted)
qed


lemma env_with_chat: "chat (env_with provider) req w = (provider req, w + 1)"
  by (simp add: env_with_def)

theorem loop_termination_witness:
  "(1::int) \<le> 3
   \<and> agent_loop env_final manager0 [] ''t1'' ''m'' 3 0 loop_state0 =
       (Inr (Some ''done''), 1, loop_state0\<lparr>ls_world := 1\<rparr>)
   \<and> fst (agent_loop env_tools manager0 [] ''t1'' ''m'' 3 0 loop_state0) = Inr None
   \<and> fst (snd (agent_loop env_tools manager0 [] ''t1'' ''m'' 3 0 loop_state0)) = 3
   \<and> assistant_turns
        (ls_messages (snd (snd (agent_loop env_tools manager0 [] ''t1'' ''m'' 3 0 loop_state0)))) = 3"
proof -
  have bound: "(1::int) \<le> 3" by simp
  have first: "chat env_final (request_of manager0 [] ''m'' loop_state0) (ls_world loop_state0) =
      (Inr final_response, 1)
    \<and> \<not> has_tool_calls final_response \<and> content final_response = Some ''done''"
    by (simp add: env_final_def env_with_chat final_response_def loop_state0_def)
  have always: "\<forall>req w. \<exists>r. fst (chat env_tools req w) = Inr r \<and> has_tool_calls r"
    by (simp add: env_tools_def env_with_chat tool_response_def)
  have turns: "assistant_turns (ls_messages loop_state0) = 0"
    by (simp add: loop_state0_def assistant_turns_def)
  from loop_termination [OF bound, of env_final manager0 "[]" "''m''" loop_state0 final_response 1
      "''done''" "''t1''"] first
  have "agent_loop env_final manager0 [] ''t1'' ''m'' 3 0 loop_state0 =
      (Inr (Some ''done''), 1, loop_state0\<lparr>ls_world := 1\<rparr>)"
    by blast
  moreover from loop_termination [OF bound, of env_tools manager0 "[]" "''m''" loop_state0 _ _ _
      "''t1''"] always
  obtain s' where "agent_loop env_tools manager0 [] ''t1'' ''m'' 3 0 loop_state0 = (Inr None, 3, s')"
    "assistant_turns (ls_messages s') = assistant_turns (ls_messages loop_state0) + nat 3"
    by blast
  ultimately show ?thesis using bound turns by simp
qed

subsection \<open>A whole run\<close>


lemma run_try_skills_raise:
  assumes "load_profile_skills e (resolve_profile m profile) w = (Inl err, w1)"
  shows "fst (run_try e m task_id task profile lg w) = Inl err"
  using assms by (simp add: run_try_def Let_def split: prod.splits)

lemma run_try_max_iterations:
  "fst (snd (run_try e m task_id task profile lg w)) =
    effective_max_iterations m (resolve_profile m profile)"
  by (simp add: run_try_def Let_def split: prod.splits sum.splits)


lemma announced_conclude:
  "announced e m task_id task profile w =
    (fst (conclude (fst (run_try e m task_id task profile [] w)) task_id
            (effective_max_iterations m (resolve_profile m profile))),
     fst (snd (conclude (fst (run_try e m task_id task profile [] w)) task_id
            (effective_max_iterations m (resolve_profile m profile)))))"
proof -
  obtain r mx it s where rt: "run_try e m task_id task profile [] w = (r, mx, it, s)"
    by (cases "run_try e m task_id task profile [] w") auto
  from run_try_max_iterations [of e m task_id task profile "[]" w] rt
  have "mx = effective_max_iterations m (resolve_profile m profile)" by simp
  with rt show ?thesis
    by (simp add: announced_def split: prod.splits)
qed

lemma run_subagent_publishes:
  "\<exists>r mx it s. run_try e m task_id task profile
        (lg @ [(INFO, ''Subagent [{}] starting task: {}'', [task_id, label])]) w = (r, mx, it, s)
    \<and> fst (run_subagent e m task_id task label orig profile (b, lg, w)) =
        b @ [\<lparr>im_channel = ''system'', im_sender_id = ''subagent'',
               im_chat_id = fst orig @ '':'' @ snd orig,
               im_content = announce_content label task (fst (conclude r task_id mx))
                 (fst (snd (conclude r task_id mx)))\<rparr>]"
proof -
  obtain r mx it s where rt: "run_try e m task_id task profile
        (lg @ [(INFO, ''Subagent [{}] starting task: {}'', [task_id, label])]) w = (r, mx, it, s)"
    by (cases "run_try e m task_id task profile
        (lg @ [(INFO, ''Subagent [{}] starting task: {}'', [task_id, label])]) w") auto
  then show ?thesis
    by (simp add: run_subagent_def announce_result_def publish_inbound_def Let_def
        split: prod.splits)
qed





subsection \<open>Running out of iterations and failing\<close>

lemma exhausted_text_not_error: "exhausted_text n \<noteq> ''Error: '' @ err"
  by (simp add: exhausted_text_def)

text \<open>
  C2, as the code has it. A run whose \<open>try\<close> block ends with no final result passes the
  out-of-iterations text to \<open>_announce_result\<close> with the status \<open>error\<close> and logs a warning;
  a run whose \<open>try\<close> block raises passes \<open>Error: \<close> and the exception's text with the
  status \<open>error\<close> and logs an error. The two announcements have the same status, rendered
  \<open>failed\<close>; they differ in the result text, and the runs differ in the level logged.
\<close>

theorem exhaustion_announced_with_error_status:
  "(fst (run_try e m task_id task profile [] w) = Inr None \<longrightarrow>
      announced e m task_id task profile w =
        (exhausted_text (effective_max_iterations m (resolve_profile m profile)), ''error'')
      \<and> fst (snd (snd (conclude (fst (run_try e m task_id task profile [] w)) task_id
            (effective_max_iterations m (resolve_profile m profile))))) = WARNING)
   \<and> (fst (run_try e m task_id task profile [] w) = Inl err \<longrightarrow>
        announced e m task_id task profile w = (''Error: '' @ err, ''error'')
        \<and> fst (snd (snd (conclude (fst (run_try e m task_id task profile [] w)) task_id
              (effective_max_iterations m (resolve_profile m profile))))) = ERROR)
   \<and> exhausted_text n \<noteq> ''Error: '' @ err'
   \<and> status_text ''error'' = ''failed''"
proof (intro conjI impI)
  show "exhausted_text n \<noteq> ''Error: '' @ err'"
    by (rule exhausted_text_not_error)
  show "status_text ''error'' = ''failed''"
    by (simp add: status_text_def)
qed (simp_all add: announced_conclude conclude_exhausted conclude_failed)

theorem exhaustion_announced_with_error_status_witness:
  "fst (run_try env_tools manager0 ''t1'' ''task'' None [] 0) = Inr None
   \<and> announced env_tools manager0 ''t1'' ''task'' None 0 = (exhausted_text 2, ''error'')
   \<and> fst (run_try env_boom manager0 ''t1'' ''task'' None [] 0) = Inl ''boom''
   \<and> announced env_boom manager0 ''t1'' ''task'' None 0 = (''Error: boom'', ''error'')"
proof -
  have tools: "fst (run_try env_tools manager0 ''t1'' ''task'' None [] 0) = Inr None"
    by code_simp
  have boom: "fst (run_try env_boom manager0 ''t1'' ''task'' None [] 0) = Inl ''boom''"
    by code_simp
  have mx: "effective_max_iterations manager0 (resolve_profile manager0 None) = 2"
    by (simp add: resolve_profile_def effective_max_iterations_def manager0_def)
  from exhaustion_announced_with_error_status
      [of env_tools manager0 "''t1''" "''task''" None 0 "''boom''"] tools mx
  have "announced env_tools manager0 ''t1'' ''task'' None 0 = (exhausted_text 2, ''error'')"
    by simp
  moreover from exhaustion_announced_with_error_status
      [of env_boom manager0 "''t1''" "''task''" None 0 "''boom''"] boom
  have "announced env_boom manager0 ''t1'' ''task'' None 0 = (''Error: boom'', ''error'')"
    by simp
  ultimately show ?thesis using tools boom by simp
qed

text \<open>
  Against C2 as stated: with the provider that always asks for a tool and the bound 2,
  the loop runs to \<open>iteration = 2\<close> with no final result, and the status the run announces
  is \<open>error\<close>, the status the run of the raising provider announces.
\<close>

theorem exhaustion_status_counterexample:
  "fst (run_try env_tools manager0 ''t1'' ''task'' None [] 0) = Inr None
   \<and> fst (snd (run_try env_tools manager0 ''t1'' ''task'' None [] 0)) = 2
   \<and> fst (snd (snd (run_try env_tools manager0 ''t1'' ''task'' None [] 0))) = 2
   \<and> fst (run_try env_boom manager0 ''t1'' ''task'' None [] 0) = Inl ''boom''
   \<and> snd (announced env_tools manager0 ''t1'' ''task'' None 0) = ''error''
   \<and> snd (announced env_tools manager0 ''t1'' ''task'' None 0) =
       snd (announced env_boom manager0 ''t1'' ''task'' None 0)"
  by code_simp


section \<open>The system prompt and the registry\<close>












section \<open>Spawning\<close>

lemma join_nonempty:
  "sep \<noteq> [] \<Longrightarrow> xs \<noteq> [] \<Longrightarrow> xs \<noteq> [[]] \<Longrightarrow> join sep xs \<noteq> []"
  by (induction sep xs rule: join.induct) simp_all

lemma nonempty_member: "k \<in> set ks \<Longrightarrow> k \<noteq> [] \<Longrightarrow> ks \<noteq> [] \<and> ks \<noteq> [[]]"
  by auto

lemma available_profiles_named:
  assumes "k \<in> set (map fst (subagent_profiles m))" "k \<noteq> []"
  shows "available_profiles m = join '', '' (sort (map fst (subagent_profiles m)))"
proof -
  from assms(1) have "k \<in> set (sort (map fst (subagent_profiles m)))" by simp
  from nonempty_member [OF this assms(2)]
  have "sort (map fst (subagent_profiles m)) \<noteq> []"
    "sort (map fst (subagent_profiles m)) \<noteq> [[]]"
    by blast+
  then have "join '', '' (sort (map fst (subagent_profiles m))) \<noteq> []"
    by (intro join_nonempty) simp_all
  then show ?thesis by (simp add: available_profiles_def Let_def)
qed

lemma profile_error_unknown:
  "p \<noteq> [] \<Longrightarrow> p \<notin> set (map fst (subagent_profiles m)) \<Longrightarrow>
    profile_error m (Some p) =
      Some (''Error: Unknown profile '' @ [CHR 0x27] @ p @ [CHR 0x27]
             @ ''. Available profiles: '' @ available_profiles m)"
  by (simp add: profile_error_def)

lemma profile_error_known:
  "p \<in> set (map fst (subagent_profiles m)) \<Longrightarrow> profile_error m (Some p) = None"
  by (simp add: profile_error_def)

lemma spawn_started:
  assumes "profile_error (sys_manager s) profile = None"
  shows "spawn task label origin_channel origin_chat_id profile uuid s =
    (''Subagent ['' @ display_label_of task label @ ''] started (id: '' @ take 8 uuid
       @ ''). I'll notify you when it completes.'',
     s\<lparr>running_tasks := AList.update (take 8 uuid) (length (tasks s)) (running_tasks s),
       tasks := tasks s @
         [\<lparr>bt_task_id = take 8 uuid, bt_task = task, bt_label = display_label_of task label,
           bt_origin = (origin_channel, origin_chat_id), bt_profile = profile,
           bt_state = Pending\<rparr>],
       sys_log := sys_log s @
         [(INFO, ''Spawned subagent [{}{}]: {}'',
           [take 8 uuid,
            (case profile of None \<Rightarrow> [] | Some p \<Rightarrow> if p = [] then [] else '', profile: '' @ p),
            display_label_of task label])]\<rparr>)"
  using assms by (simp add: spawn_def Let_def)

text \<open>
  C6. A call of \<open>spawn\<close> with a non-empty profile name that is not a key of the profiles
  returns the error message, which names the profile and the available profiles (the
  sorted keys joined by commas, when there is a non-empty key), and leaves the system as
  it was: no task is created and the live-task map is unchanged. A call with a profile
  name that is a key returns the acknowledgement with the display label and the task
  id, creates exactly one background task, pending, and enters it in the live-task map
  under its id; the display label is the label given, when one is given and not empty.
\<close>

theorem spawn_validates_profile:
  "(p \<noteq> [] \<and> p \<notin> set (map fst (subagent_profiles (sys_manager s))) \<longrightarrow>
      spawn task label origin_channel origin_chat_id (Some p) uuid s =
        (''Error: Unknown profile '' @ [CHR 0x27] @ p @ [CHR 0x27]
           @ ''. Available profiles: '' @ available_profiles (sys_manager s), s))
   \<and> (k \<in> set (map fst (subagent_profiles (sys_manager s))) \<and> k \<noteq> [] \<longrightarrow>
        available_profiles (sys_manager s) =
          join '', '' (sort (map fst (subagent_profiles (sys_manager s)))))
   \<and> (p \<in> set (map fst (subagent_profiles (sys_manager s))) \<longrightarrow>
        fst (spawn task label origin_channel origin_chat_id (Some p) uuid s) =
          ''Subagent ['' @ display_label_of task label @ ''] started (id: '' @ take 8 uuid
            @ ''). I'll notify you when it completes.''
        \<and> tasks (snd (spawn task label origin_channel origin_chat_id (Some p) uuid s)) =
            tasks s @
              [\<lparr>bt_task_id = take 8 uuid, bt_task = task, bt_label = display_label_of task label,
                bt_origin = (origin_channel, origin_chat_id), bt_profile = Some p,
                bt_state = Pending\<rparr>]
        \<and> running_tasks (snd (spawn task label origin_channel origin_chat_id (Some p) uuid s)) =
            AList.update (take 8 uuid) (length (tasks s)) (running_tasks s)
        \<and> sys_bus (snd (spawn task label origin_channel origin_chat_id (Some p) uuid s)) =
            sys_bus s)
   \<and> (l \<noteq> [] \<longrightarrow> display_label_of task (Some l) = l)"
proof (intro conjI impI)
  assume "p \<noteq> [] \<and> p \<notin> set (map fst (subagent_profiles (sys_manager s)))"
  then show "spawn task label origin_channel origin_chat_id (Some p) uuid s =
      (''Error: Unknown profile '' @ [CHR 0x27] @ p @ [CHR 0x27]
         @ ''. Available profiles: '' @ available_profiles (sys_manager s), s)"
    by (simp add: spawn_def profile_error_unknown)
next
  assume "k \<in> set (map fst (subagent_profiles (sys_manager s))) \<and> k \<noteq> []"
  then show "available_profiles (sys_manager s) =
      join '', '' (sort (map fst (subagent_profiles (sys_manager s))))"
    using available_profiles_named [of k "sys_manager s"] by blast
next
  assume l: "l \<noteq> []"
  then show "display_label_of task (Some l) = l"
    by (simp add: display_label_of_def)
next
  assume "p \<in> set (map fst (subagent_profiles (sys_manager s)))"
  then have known: "profile_error (sys_manager s) (Some p) = None"
    by (rule profile_error_known)
  note sp = spawn_started [OF known, of task label origin_channel origin_chat_id uuid]
  show "fst (spawn task label origin_channel origin_chat_id (Some p) uuid s) =
      ''Subagent ['' @ display_label_of task label @ ''] started (id: '' @ take 8 uuid
        @ ''). I'll notify you when it completes.''"
    unfolding sp by simp
  show "tasks (snd (spawn task label origin_channel origin_chat_id (Some p) uuid s)) =
      tasks s @
        [\<lparr>bt_task_id = take 8 uuid, bt_task = task, bt_label = display_label_of task label,
          bt_origin = (origin_channel, origin_chat_id), bt_profile = Some p,
          bt_state = Pending\<rparr>]"
    unfolding sp by simp
  show "running_tasks (snd (spawn task label origin_channel origin_chat_id (Some p) uuid s)) =
      AList.update (take 8 uuid) (length (tasks s)) (running_tasks s)"
    unfolding sp by simp
  show "sys_bus (snd (spawn task label origin_channel origin_chat_id (Some p) uuid s)) = sys_bus s"
    unfolding sp by simp
qed

theorem spawn_validates_profile_witness:
  "spawn ''find it'' (Some ''search'') ''cli'' ''direct'' (Some ''nope'') ''1234abcd-0000''
      (initial manager0 (0::nat)) =
     (''Error: Unknown profile 'nope'. Available profiles: ops, research'', initial manager0 0)
   \<and> fst (spawn ''find it'' (Some ''search'') ''cli'' ''direct'' (Some ''research'')
        ''1234abcd-0000'' (initial manager0 (0::nat))) =
       ''Subagent [search] started (id: 1234abcd). I'll notify you when it completes.''
   \<and> length (tasks (snd (spawn ''find it'' (Some ''search'') ''cli'' ''direct'' (Some ''research'')
        ''1234abcd-0000'' (initial manager0 (0::nat))))) = 1
   \<and> running_tasks (snd (spawn ''find it'' (Some ''search'') ''cli'' ''direct'' (Some ''research'')
        ''1234abcd-0000'' (initial manager0 (0::nat)))) = [(''1234abcd'', 0)]"
proof -
  have keys: "map fst (subagent_profiles (sys_manager (initial manager0 (0::nat)))) =
      [''research'', ''ops'']"
    by (simp add: initial_def manager0_def)
  have unknown: "''nope'' \<noteq> [] \<and>
      ''nope'' \<notin> set (map fst (subagent_profiles (sys_manager (initial manager0 (0::nat)))))"
    unfolding keys by simp
  have known: "''research'' \<in> set (map fst (subagent_profiles (sys_manager (initial manager0 (0::nat)))))"
    "''research'' \<in> set (map fst (subagent_profiles (sys_manager (initial manager0 (0::nat)))))
      \<and> ''research'' \<noteq> []"
    unfolding keys by simp_all
  have label: "''search'' \<noteq> []" by simp
  have sorted_keys: "join '', '' (sort [''research'', ''ops'']) = ''ops, research''"
    by code_simp
  have empty: "tasks (initial manager0 (0::nat)) = []" "running_tasks (initial manager0 (0::nat)) = []"
    by (simp_all add: initial_def)
  note a = spawn_validates_profile [of "''nope''" "initial manager0 (0::nat)" "''find it''"
      "Some ''search''" "''cli''" "''direct''" "''1234abcd-0000''" "''research''" "''search''"]
  note b = spawn_validates_profile [of "''research''" "initial manager0 (0::nat)" "''find it''"
      "Some ''search''" "''cli''" "''direct''" "''1234abcd-0000''" "''research''" "''search''"]
  from a unknown known(2)
  have "spawn ''find it'' (Some ''search'') ''cli'' ''direct'' (Some ''nope'') ''1234abcd-0000''
      (initial manager0 (0::nat)) =
     (''Error: Unknown profile '' @ [CHR 0x27] @ ''nope'' @ [CHR 0x27] @ ''. Available profiles: ''
        @ join '', '' (sort (map fst (subagent_profiles (sys_manager (initial manager0 (0::nat)))))),
      initial manager0 0)"
    by presburger
  then have first: "spawn ''find it'' (Some ''search'') ''cli'' ''direct'' (Some ''nope'')
      ''1234abcd-0000'' (initial manager0 (0::nat)) =
     (''Error: Unknown profile 'nope'. Available profiles: ops, research'', initial manager0 0)"
    unfolding keys sorted_keys by simp
  from b known(1) label
  have "fst (spawn ''find it'' (Some ''search'') ''cli'' ''direct'' (Some ''research'')
        ''1234abcd-0000'' (initial manager0 (0::nat))) =
       ''Subagent ['' @ ''search'' @ ''] started (id: '' @ take 8 ''1234abcd-0000''
          @ ''). I'll notify you when it completes.''"
    and "tasks (snd (spawn ''find it'' (Some ''search'') ''cli'' ''direct'' (Some ''research'')
        ''1234abcd-0000'' (initial manager0 (0::nat)))) =
       tasks (initial manager0 (0::nat)) @
         [\<lparr>bt_task_id = take 8 ''1234abcd-0000'', bt_task = ''find it'',
           bt_label = display_label_of ''find it'' (Some ''search''),
           bt_origin = (''cli'', ''direct''), bt_profile = Some ''research'',
           bt_state = Pending\<rparr>]"
    and "running_tasks (snd (spawn ''find it'' (Some ''search'') ''cli'' ''direct''
        (Some ''research'') ''1234abcd-0000'' (initial manager0 (0::nat)))) =
       AList.update (take 8 ''1234abcd-0000'') (length (tasks (initial manager0 (0::nat))))
         (running_tasks (initial manager0 (0::nat)))"
    by presburger+
  then show ?thesis using first unfolding empty by simp
qed


section \<open>Announcements and the live-task map\<close>

lemma filter_update_count_new:
  "h < length xs \<Longrightarrow> \<not> P (xs ! h) \<Longrightarrow> P y \<Longrightarrow>
    length (filter P (xs[h := y])) = Suc (length (filter P xs))"
proof (induction xs arbitrary: h)
  case Nil
  then show ?case by simp
next
  case (Cons x xs)
  then show ?case by (cases h) simp_all
qed

lemma filter_update_count_same:
  "h < length xs \<Longrightarrow> P (xs ! h) \<Longrightarrow> P y \<Longrightarrow>
    length (filter P (xs[h := y])) = length (filter P xs)"
proof (induction xs arbitrary: h)
  case Nil
  then show ?case by simp
next
  case (Cons x xs)
  then show ?case by (cases h) simp_all
qed

lemma run_subagent_one_message:
  "\<exists>msg. fst (run_subagent e m task_id task label orig profile (b, lg, w)) = b @ [msg]"
  using run_subagent_publishes [of e m task_id task profile lg label w orig b] by blast

lemma consistent_initial: "consistent (initial m w)"
  by (simp add: consistent_def initial_def)

lemma consistent_spawn:
  assumes c: "consistent s"
    and fresh: "take 8 uuid \<notin> set (map fst (running_tasks s))"
  shows "consistent (snd (spawn task label origin_channel origin_chat_id profile uuid s))"
proof (cases "profile_error (sys_manager s) profile")
  case (Some err)
  then show ?thesis using c by (simp add: spawn_def)
next
  case None
  let ?tid = "take 8 uuid"
  let ?n = "length (tasks s)"
  let ?bg = "\<lparr>bt_task_id = ?tid, bt_task = task, bt_label = display_label_of task label,
           bt_origin = (origin_channel, origin_chat_id), bt_profile = profile,
           bt_state = Pending\<rparr>"
  from fresh have none: "map_of (running_tasks s) ?tid = None"
    by (simp add: map_of_eq_None_iff)
  from c have bus: "length (sys_bus s) = length (filter (\<lambda>t. bt_state t \<noteq> Pending) (tasks s))"
    and live: "\<And>h. h < ?n \<Longrightarrow> bt_state (tasks s ! h) \<noteq> CallbacksRun \<Longrightarrow>
        map_of (running_tasks s) (bt_task_id (tasks s ! h)) = Some h"
    and entry: "\<And>tid h. map_of (running_tasks s) tid = Some h \<Longrightarrow>
        h < ?n \<and> bt_task_id (tasks s ! h) = tid \<and> bt_state (tasks s ! h) \<noteq> CallbacksRun"
    unfolding consistent_def by blast+
  have live': "map_of (AList.update ?tid ?n (running_tasks s))
        (bt_task_id ((tasks s @ [?bg]) ! h)) = Some h"
    if "h < length (tasks s @ [?bg])" "bt_state ((tasks s @ [?bg]) ! h) \<noteq> CallbacksRun" for h
  proof (cases "h < ?n")
    case True
    with that have "map_of (running_tasks s) (bt_task_id (tasks s ! h)) = Some h"
      using live [of h] by (simp add: nth_append)
    moreover from this none have "bt_task_id (tasks s ! h) \<noteq> ?tid" by auto
    ultimately show ?thesis using True by (simp add: nth_append update_conv')
  next
    case False
    with that(1) have "h = ?n" by simp
    then show ?thesis by (simp add: update_conv')
  qed
  have entry': "h < length (tasks s @ [?bg]) \<and> bt_task_id ((tasks s @ [?bg]) ! h) = tid
      \<and> bt_state ((tasks s @ [?bg]) ! h) \<noteq> CallbacksRun"
    if "map_of (AList.update ?tid ?n (running_tasks s)) tid = Some h" for tid h
  proof (cases "tid = ?tid")
    case True
    with that have "h = ?n" by (simp add: update_conv')
    with True show ?thesis by simp
  next
    case False
    with that have "map_of (running_tasks s) tid = Some h" by (simp add: update_conv')
    from entry [OF this] show ?thesis by (simp add: nth_append)
  qed
  show ?thesis
    unfolding spawn_started [OF None] consistent_def
    using bus live' entry' by simp
qed

lemma consistent_run_task:
  assumes c: "consistent s"
  shows "consistent (run_task e h s)"
proof (cases "h < length (tasks s) \<and> bt_state (tasks s ! h) = Pending")
  case False
  then have "run_task e h s = s"
    unfolding run_task_def by (rule if_not_P)
  with c show ?thesis by simp
next
  case True
  let ?t = "tasks s ! h"
  obtain b lg w where r: "run_subagent e (sys_manager s) (bt_task_id ?t) (bt_task ?t) (bt_label ?t)
      (bt_origin ?t) (bt_profile ?t) (sys_bus s, sys_log s, sys_world s) = (b, lg, w)"
    by (cases "run_subagent e (sys_manager s) (bt_task_id ?t) (bt_task ?t) (bt_label ?t)
      (bt_origin ?t) (bt_profile ?t) (sys_bus s, sys_log s, sys_world s)") auto
  from run_subagent_one_message [of e "sys_manager s" "bt_task_id ?t" "bt_task ?t" "bt_label ?t"
      "bt_origin ?t" "bt_profile ?t" "sys_bus s" "sys_log s" "sys_world s"] r
  obtain msg where b: "b = sys_bus s @ [msg]" by auto
  let ?ts = "(tasks s)[h := ?t\<lparr>bt_state := Finished\<rparr>]"
  have s': "run_task e h s = s\<lparr>tasks := ?ts, sys_bus := b, sys_log := lg, sys_world := w\<rparr>"
    using True r by (simp add: run_task_def Let_def)
  from c have bus: "length (sys_bus s) = length (filter (\<lambda>t. bt_state t \<noteq> Pending) (tasks s))"
    and live: "\<And>k. k < length (tasks s) \<Longrightarrow> bt_state (tasks s ! k) \<noteq> CallbacksRun \<Longrightarrow>
        map_of (running_tasks s) (bt_task_id (tasks s ! k)) = Some k"
    and entry: "\<And>tid k. map_of (running_tasks s) tid = Some k \<Longrightarrow>
        k < length (tasks s) \<and> bt_task_id (tasks s ! k) = tid
        \<and> bt_state (tasks s ! k) \<noteq> CallbacksRun"
    unfolding consistent_def by blast+
  have count: "length (filter (\<lambda>t. bt_state t \<noteq> Pending) ?ts) =
      Suc (length (filter (\<lambda>t. bt_state t \<noteq> Pending) (tasks s)))"
    using True by (intro filter_update_count_new) simp_all
  have ids: "bt_task_id (?ts ! k) = bt_task_id (tasks s ! k)" if "k < length (tasks s)" for k
    using that by (cases "k = h") simp_all
  have states: "bt_state (?ts ! k) \<noteq> CallbacksRun \<longleftrightarrow> bt_state (tasks s ! k) \<noteq> CallbacksRun"
    if "k < length (tasks s)" for k
    using that True by (cases "k = h") simp_all
  show ?thesis
    unfolding s' consistent_def
  proof (intro conjI allI impI)
    show "length (sys_bus (s\<lparr>tasks := ?ts, sys_bus := b, sys_log := lg, sys_world := w\<rparr>)) =
        length (filter (\<lambda>t. bt_state t \<noteq> Pending)
          (tasks (s\<lparr>tasks := ?ts, sys_bus := b, sys_log := lg, sys_world := w\<rparr>)))"
      using bus b count by simp
  next
    fix k
    assume "k < length (tasks (s\<lparr>tasks := ?ts, sys_bus := b, sys_log := lg, sys_world := w\<rparr>))"
      "bt_state (tasks (s\<lparr>tasks := ?ts, sys_bus := b, sys_log := lg, sys_world := w\<rparr>) ! k)
        \<noteq> CallbacksRun"
    then have k: "k < length (tasks s)" "bt_state (tasks s ! k) \<noteq> CallbacksRun"
      using states [of k] by simp_all
    from live [OF this] ids [OF k(1)]
    show "map_of (running_tasks (s\<lparr>tasks := ?ts, sys_bus := b, sys_log := lg, sys_world := w\<rparr>))
        (bt_task_id (tasks (s\<lparr>tasks := ?ts, sys_bus := b, sys_log := lg, sys_world := w\<rparr>) ! k)) =
        Some k"
      by simp
  next
    fix tid k
    assume "map_of (running_tasks (s\<lparr>tasks := ?ts, sys_bus := b, sys_log := lg, sys_world := w\<rparr>))
        tid = Some k"
    then have "map_of (running_tasks s) tid = Some k" by simp
    from entry [OF this] have k: "k < length (tasks s)" "bt_task_id (tasks s ! k) = tid"
      "bt_state (tasks s ! k) \<noteq> CallbacksRun"
      by blast+
    show "k < length (tasks (s\<lparr>tasks := ?ts, sys_bus := b, sys_log := lg, sys_world := w\<rparr>))"
      using k(1) by simp
    show "bt_task_id (tasks (s\<lparr>tasks := ?ts, sys_bus := b, sys_log := lg, sys_world := w\<rparr>) ! k)
        = tid"
      using ids [OF k(1)] k(2) by simp
    show "bt_state (tasks (s\<lparr>tasks := ?ts, sys_bus := b, sys_log := lg, sys_world := w\<rparr>) ! k)
        \<noteq> CallbacksRun"
      using states [OF k(1)] k(3) by simp
  qed
qed


lemma consistent_done_callback:
  assumes c: "consistent s"
  shows "consistent (done_callback h s)"
proof (cases "h < length (tasks s) \<and> bt_state (tasks s ! h) = Finished")
  case False
  then have "done_callback h s = s"
    unfolding done_callback_def by (rule if_not_P)
  with c show ?thesis by simp
next
  case True
  let ?t = "tasks s ! h"
  let ?ts = "(tasks s)[h := ?t\<lparr>bt_state := CallbacksRun\<rparr>]"
  let ?rt = "AList.delete (bt_task_id ?t) (running_tasks s)"
  have s': "done_callback h s = s\<lparr>running_tasks := ?rt, tasks := ?ts\<rparr>"
    using True by (simp add: done_callback_def)
  from c have bus: "length (sys_bus s) = length (filter (\<lambda>t. bt_state t \<noteq> Pending) (tasks s))"
    and live: "\<And>k. k < length (tasks s) \<Longrightarrow> bt_state (tasks s ! k) \<noteq> CallbacksRun \<Longrightarrow>
        map_of (running_tasks s) (bt_task_id (tasks s ! k)) = Some k"
    and entry: "\<And>tid k. map_of (running_tasks s) tid = Some k \<Longrightarrow>
        k < length (tasks s) \<and> bt_task_id (tasks s ! k) = tid
        \<and> bt_state (tasks s ! k) \<noteq> CallbacksRun"
    unfolding consistent_def by blast+
  from True have own: "map_of (running_tasks s) (bt_task_id ?t) = Some h"
    using live [of h] by simp
  have count: "length (filter (\<lambda>t. bt_state t \<noteq> Pending) ?ts) =
      length (filter (\<lambda>t. bt_state t \<noteq> Pending) (tasks s))"
    using True by (intro filter_update_count_same) simp_all
  have ids: "bt_task_id (?ts ! k) = bt_task_id (tasks s ! k)" if "k < length (tasks s)" for k
    using that by (cases "k = h") simp_all
  have lookup: "map_of ?rt tid = (if tid = bt_task_id ?t then None else map_of (running_tasks s) tid)"
    for tid
    by (simp add: delete_conv')
  show ?thesis
    unfolding s' consistent_def
  proof (intro conjI allI impI)
    show "length (sys_bus (s\<lparr>running_tasks := ?rt, tasks := ?ts\<rparr>)) =
        length (filter (\<lambda>t. bt_state t \<noteq> Pending) (tasks (s\<lparr>running_tasks := ?rt, tasks := ?ts\<rparr>)))"
      using bus count by simp
  next
    fix k
    assume "k < length (tasks (s\<lparr>running_tasks := ?rt, tasks := ?ts\<rparr>))"
      "bt_state (tasks (s\<lparr>running_tasks := ?rt, tasks := ?ts\<rparr>) ! k) \<noteq> CallbacksRun"
    then have k: "k < length (tasks s)" "bt_state (?ts ! k) \<noteq> CallbacksRun" by simp_all
    then have kh: "k \<noteq> h" by auto
    with k have st: "bt_state (tasks s ! k) \<noteq> CallbacksRun" by simp
    from live [OF k(1) st] have mk: "map_of (running_tasks s) (bt_task_id (tasks s ! k)) = Some k" .
    with own kh have "bt_task_id (tasks s ! k) \<noteq> bt_task_id ?t" by auto
    with mk ids [OF k(1)]
    show "map_of (running_tasks (s\<lparr>running_tasks := ?rt, tasks := ?ts\<rparr>))
        (bt_task_id (tasks (s\<lparr>running_tasks := ?rt, tasks := ?ts\<rparr>) ! k)) = Some k"
      by (simp add: lookup)
  next
    fix tid k
    assume "map_of (running_tasks (s\<lparr>running_tasks := ?rt, tasks := ?ts\<rparr>)) tid = Some k"
    then have "map_of ?rt tid = Some k" by simp
    then have ne: "tid \<noteq> bt_task_id ?t" and mk: "map_of (running_tasks s) tid = Some k"
      unfolding lookup by (simp_all split: if_splits)
    from entry [OF mk] have k: "k < length (tasks s)" "bt_task_id (tasks s ! k) = tid"
      "bt_state (tasks s ! k) \<noteq> CallbacksRun"
      by blast+
    from k(2) ne have kh: "k \<noteq> h" by auto
    show "k < length (tasks (s\<lparr>running_tasks := ?rt, tasks := ?ts\<rparr>))"
      using k(1) by simp
    show "bt_task_id (tasks (s\<lparr>running_tasks := ?rt, tasks := ?ts\<rparr>) ! k) = tid"
      using ids [OF k(1)] k(2) by simp
    show "bt_state (tasks (s\<lparr>running_tasks := ?rt, tasks := ?ts\<rparr>) ! k) \<noteq> CallbacksRun"
      using k(3) kh by simp
  qed
qed

lemma consistent_step:
  "consistent s \<Longrightarrow> fresh_id s ev \<Longrightarrow> consistent (step e s ev)"
  by (cases ev) (simp_all add: consistent_spawn consistent_run_task consistent_done_callback)

lemma consistent_events:
  "consistent s \<Longrightarrow> fresh_ids e s evs \<Longrightarrow> consistent (foldl (step e) s evs)"
  by (induction evs arbitrary: s) (simp_all add: consistent_step)

text \<open>
  C3, as amended. Every run, however it ends, adds exactly one message to the bus. And
  in every system reached from the initial one by spawns, each of which draws an id
  that is not a key of the live-task map then, runs and done callbacks: the bus holds
  one message per task
  that is no longer pending; the id of every task that is pending, or finished with its
  done callback yet to run, is still mapped to that task; and every entry of the
  live-task map is the id of such a task. So an entry leaves the map only by the done
  callback of its own task, which runs after the task's run has ended and announced.
\<close>

theorem one_announcement_and_late_removal:
  assumes "fresh_ids e (initial m w) evs"
  shows "(\<exists>msg. fst (run_subagent e m' task_id task label orig profile (b, lg, w')) = b @ [msg])
    \<and> consistent (foldl (step e) (initial m w) evs)"
  using run_subagent_one_message [of e m' task_id task label orig profile b lg w']
    consistent_events [OF consistent_initial assms]
  by blast

theorem one_announcement_and_late_removal_witness:
  "fresh_ids env_final (initial manager0 0) events0
   \<and> length (fst (run_subagent env_boom manager0 ''t1'' ''task'' ''label'' (''cli'', ''direct'')
        None ([], [], 0))) = 1
   \<and> map bt_state (tasks (foldl (step env_final) (initial manager0 0) events0)) =
       [CallbacksRun, Finished]
   \<and> length (sys_bus (foldl (step env_final) (initial manager0 0) events0)) = 2
   \<and> running_tasks (foldl (step env_final) (initial manager0 0) events0) = [(''9876fedc'', 1)]"
proof -
  have fresh: "fresh_ids env_final (initial manager0 0) events0"
    by code_simp
  have states: "map bt_state (tasks (foldl (step env_final) (initial manager0 0) events0)) =
      [CallbacksRun, Finished]"
    by code_simp
  have live: "running_tasks (foldl (step env_final) (initial manager0 0) events0) =
      [(''9876fedc'', 1)]"
    by code_simp
  have count: "length (filter (\<lambda>t. bt_state t \<noteq> Pending) ts) =
      length (filter (\<lambda>st. st \<noteq> Pending) (map bt_state ts))" for ts :: "bg_task list"
    by (induction ts) simp_all
  from one_announcement_and_late_removal [OF fresh, of manager0 "''t1''" "''task''" "''label''"
      "(''cli'', ''direct'')" None "[]" "[]" 0]
  obtain msg where "fst (run_subagent env_final manager0 ''t1'' ''task'' ''label''
        (''cli'', ''direct'') None ([], [], 0)) = [] @ [msg]"
    and c: "consistent (foldl (step env_final) (initial manager0 0) events0)"
    by blast
  from c have "length (sys_bus (foldl (step env_final) (initial manager0 0) events0)) =
      length (filter (\<lambda>t. bt_state t \<noteq> Pending)
        (tasks (foldl (step env_final) (initial manager0 0) events0)))"
    unfolding consistent_def by blast
  then have bus: "length (sys_bus (foldl (step env_final) (initial manager0 0) events0)) = 2"
    unfolding count states by simp
  have boom: "length (fst (run_subagent env_boom manager0 ''t1'' ''task'' ''label''
      (''cli'', ''direct'') None ([], [], 0))) = 1"
    using run_subagent_one_message [of env_boom manager0 "''t1''" "''task''" "''label''"
        "(''cli'', ''direct'')" None "[]" "[]" 0]
    by auto
  from fresh states live bus boom show ?thesis by simp
qed

text \<open>
  Against C3 as stated: \<open>spawn\<close> keeps the first eight characters of a \<open>uuid4\<close> and does not
  look whether the live-task map has them already. When the second of two spawns draws
  the id of the first, its entry takes the place of the first's, and the done callback
  of the first task, which pops that id, removes it: the map is empty while the second
  task has not run.
\<close>

theorem live_entry_removed_early_counterexample:
  "\<not> fresh_ids env_final (initial manager0 0) events_clash
   \<and> map bt_task_id (tasks (foldl (step env_final) (initial manager0 0) events_clash)) =
       [''1234abcd'', ''1234abcd'']
   \<and> map bt_state (tasks (foldl (step env_final) (initial manager0 0) events_clash)) =
       [CallbacksRun, Pending]
   \<and> running_tasks (foldl (step env_final) (initial manager0 0) events_clash) = []
   \<and> get_running_count (foldl (step env_final) (initial manager0 0) events_clash) = 0"
  by code_simp


section \<open>The plugin loader\<close>

subsection \<open>The mapping the loops build\<close>

lemma update_fresh: "k \<notin> fst ` set al \<Longrightarrow> AList.update k v al = al @ [(k, v)]"
  by (induction al) auto

lemma keep_first_append:
  "keep_first item tools = (if fst item \<in> fst ` set tools then tools else tools @ [item])"
  by (simp add: keep_first_def update_fresh)

lemma names_of_Nil: "names_of [] = {}"
  by (simp add: names_of_def)

lemma names_of_append: "names_of (xs @ ys) = names_of xs \<union> names_of ys"
  by (auto simp: names_of_def)

lemma names_of_keep_first: "names_of (keep_first item tools) = insert (fst item) (names_of tools)"
  by (auto simp: keep_first_append names_of_def)

lemma names_of_fold_keep_first:
  "names_of (fold keep_first items tools) = names_of tools \<union> names_of items"
proof (induction items arbitrary: tools)
  case Nil
  then show ?case by (simp add: names_of_Nil)
next
  case (Cons item items)
  have "names_of (item # items) = insert (fst item) (names_of items)"
    by (simp add: names_of_def)
  then show ?case by (simp add: Cons.IH names_of_keep_first)
qed

lemma map_of_None_names: "map_of items n = None \<longleftrightarrow> n \<notin> names_of items"
  by (simp add: map_of_eq_None_iff names_of_def)

lemma map_of_keep_first:
  "map_of (keep_first item tools) n =
    (case map_of tools n of Some t \<Rightarrow> Some t | None \<Rightarrow> map_of [item] n)"
proof (cases "fst item \<in> fst ` set tools")
  case True
  then have "map_of tools (fst item) \<noteq> None" by (simp add: map_of_eq_None_iff)
  with True show ?thesis
    by (cases item) (auto simp: keep_first_append split: option.splits)
next
  case False
  then show ?thesis
    by (cases item) (auto simp: keep_first_append map_add_def split: option.splits)
qed

lemma map_of_fold_keep_first:
  "map_of (fold keep_first items tools) n =
    (case map_of tools n of Some t \<Rightarrow> Some t | None \<Rightarrow> map_of items n)"
proof (induction items arbitrary: tools)
  case Nil
  then show ?case by (simp split: option.splits)
next
  case (Cons item items)
  show ?case
    by (cases item) (simp add: Cons.IH map_of_keep_first split: option.splits)
qed

lemma collect_one_raises:
  assumes "name_raises ctx c"
  shows "\<exists>err. collect_one ctx fname c acc = Inl err"
proof -
  from assms have "is_tool_subclass c" "\<not> is_abstract c"
    by (simp_all add: name_raises_def)
  moreover from assms obtain err where "instantiate ctx c = Inr (Unnamed err)"
    by (auto simp: name_raises_def split: sum.splits plugin_instance.splits)
  ultimately show ?thesis by (simp add: collect_one_def)
qed

lemma collect_one_returns:
  assumes "\<not> name_raises ctx c"
  shows "\<exists>acc'. collect_one ctx fname c acc = Inr acc'
      \<and> fst acc' = fold keep_first (class_instances ctx c) (fst acc)
      \<and> set (snd acc) \<subseteq> set (snd acc')"
proof (cases "is_tool_subclass c \<and> \<not> is_abstract c")
  case False
  then have "collect_one ctx fname c acc = Inr acc" "class_instances ctx c = []"
    by (auto simp: collect_one_def class_instances_def)
  then show ?thesis by simp
next
  case True
  show ?thesis
  proof (cases "instantiate ctx c")
    case (Inl err)
    with True show ?thesis by (auto simp: collect_one_def class_instances_def)
  next
    case (Inr i)
    show ?thesis
    proof (cases i)
      case (Unnamed err)
      with True Inr assms show ?thesis by (simp add: name_raises_def)
    next
      case (Named t)
      with True Inr show ?thesis
        by (auto simp: collect_one_def class_instances_def keep_first_def Let_def)
    qed
  qed
qed

lemma collect_one_construction:
  "is_tool_subclass c \<Longrightarrow> \<not> is_abstract c \<Longrightarrow> instantiate ctx c = Inl err \<Longrightarrow>
    collect_one ctx fname c acc =
      Inr (fst acc, snd acc @ [construction_failure_line (cls_name c) fname err])"
  by (simp add: collect_one_def)

lemma collect_one_duplicate:
  assumes n: "n \<in> names_of (class_instances ctx c)" and held: "n \<in> names_of (fst acc)"
  shows "collect_one ctx fname c acc = Inr (fst acc, snd acc @ [duplicate_line n fname])"
proof (cases "is_tool_subclass c \<and> \<not> is_abstract c")
  case False
  with n show ?thesis by (simp add: class_instances_def names_of_Nil)
next
  case True
  show ?thesis
  proof (cases "instantiate ctx c")
    case (Inl err)
    with True n show ?thesis by (simp add: class_instances_def names_of_Nil)
  next
    case (Inr i)
    show ?thesis
    proof (cases i)
      case (Unnamed err)
      with True Inr n show ?thesis by (simp add: class_instances_def names_of_Nil)
    next
      case (Named t)
      with True Inr n have "n = tool_name t" by (simp add: class_instances_def names_of_def)
      with held True Inr Named show ?thesis by (simp add: collect_one_def names_of_def)
    qed
  qed
qed

lemma collect_through:
  "fst (snd (collect ctx fname cs acc)) =
      fold keep_first (concat (map (class_instances ctx) (reached ctx cs))) (fst acc)
    \<and> set (snd acc) \<subseteq> set (snd (snd (collect ctx fname cs acc)))"
proof (induction cs arbitrary: acc)
  case Nil
  then show ?case by (simp add: reached_def)
next
  case (Cons c cs)
  show ?case
  proof (cases "name_raises ctx c")
    case True
    from collect_one_raises [OF True, of fname acc]
    obtain err where "collect_one ctx fname c acc = Inl err" by blast
    with True show ?thesis by (simp add: reached_def)
  next
    case False
    from collect_one_returns [OF False, of fname acc]
    obtain acc' where r: "collect_one ctx fname c acc = Inr acc'"
      and m: "fst acc' = fold keep_first (class_instances ctx c) (fst acc)"
      and l: "set (snd acc) \<subseteq> set (snd acc')"
      by blast
    from r have step: "collect ctx fname (c # cs) acc = collect ctx fname cs acc'" by simp
    from False have through: "reached ctx (c # cs) = c # reached ctx cs"
      by (simp add: reached_def)
    from Cons.IH [of acc'] l show ?thesis
      unfolding step through by (auto simp: m)
  qed
qed

lemmas fst_collect = collect_through [THEN conjunct1]

lemmas collect_log = collect_through [THEN conjunct2]

lemma collect_construction_line:
  assumes c: "is_tool_subclass c" "\<not> is_abstract c" "instantiate ctx c = Inl err"
  shows "c \<in> set (reached ctx cs) \<Longrightarrow>
    construction_failure_line (cls_name c) fname err
      \<in> set (snd (snd (collect ctx fname cs acc)))"
proof (induction cs arbitrary: acc)
  case Nil
  then show ?case by (simp add: reached_def)
next
  case (Cons d cs)
  show ?case
  proof (cases "name_raises ctx d")
    case True
    with Cons.prems show ?thesis by (simp add: reached_def)
  next
    case False
    from collect_one_returns [OF False, of fname acc]
    obtain acc' where r: "collect_one ctx fname d acc = Inr acc'"
      and l: "set (snd acc) \<subseteq> set (snd acc')"
      by blast
    from r have step: "collect ctx fname (d # cs) acc = collect ctx fname cs acc'" by simp
    show ?thesis
    proof (cases "c = d")
      case True
      with r collect_one_construction [OF c, of fname acc]
      have "construction_failure_line (cls_name c) fname err \<in> set (snd acc')" by auto
      with collect_log [of acc' ctx fname cs] show ?thesis
        unfolding step by blast
    next
      case different: False
      with Cons.prems False have "c \<in> set (reached ctx cs)" by (simp add: reached_def)
      from Cons.IH [OF this, of acc'] show ?thesis
        unfolding step .
    qed
  qed
qed

lemma collect_duplicate:
  "n \<in> names_of (concat (map (class_instances ctx) (reached ctx cs))) \<Longrightarrow>
    n \<in> names_of (fst acc) \<Longrightarrow>
    duplicate_line n fname \<in> set (snd (snd (collect ctx fname cs acc)))"
proof (induction cs arbitrary: acc)
  case Nil
  then show ?case by (simp add: reached_def names_of_Nil)
next
  case (Cons c cs)
  show ?case
  proof (cases "name_raises ctx c")
    case True
    with Cons.prems(1) show ?thesis by (simp add: reached_def names_of_Nil)
  next
    case False
    from collect_one_returns [OF False, of fname acc]
    obtain acc' where r: "collect_one ctx fname c acc = Inr acc'"
      and m: "fst acc' = fold keep_first (class_instances ctx c) (fst acc)"
      and l: "set (snd acc) \<subseteq> set (snd acc')"
      by blast
    from r have step: "collect ctx fname (c # cs) acc = collect ctx fname cs acc'" by simp
    from Cons.prems(2) have held: "n \<in> names_of (fst acc')"
      by (simp add: m names_of_fold_keep_first)
    show ?thesis
    proof (cases "n \<in> names_of (class_instances ctx c)")
      case True
      with r collect_one_duplicate [OF True Cons.prems(2), of fname]
      have "duplicate_line n fname \<in> set (snd acc')" by auto
      with collect_log [of acc' ctx fname cs] show ?thesis
        unfolding step by blast
    next
      case absent: False
      with Cons.prems(1) False
      have "n \<in> names_of (concat (map (class_instances ctx) (reached ctx cs)))"
        by (simp add: reached_def names_of_append)
      from Cons.IH [OF this held] show ?thesis
        unfolding step .
    qed
  qed
qed

lemma load_one_tried:
  "\<not> startswith (pf_name f) ''_'' \<Longrightarrow>
    fst (load_one ctx f acc) = fst (snd (load_file ctx f acc))
    \<and> set (snd (snd (load_file ctx f acc))) \<subseteq> set (snd (load_one ctx f acc))"
  by (auto simp: load_one_def split: prod.splits option.splits)

lemma load_file_module:
  "pf_spec_ok f \<Longrightarrow> pf_module f = Inr cs \<Longrightarrow>
    load_file ctx f acc = collect ctx (pf_name f) cs acc"
  by (simp add: load_file_def)

lemma load_file_through:
  "fst (snd (load_file ctx f acc)) =
      fold keep_first (if startswith (pf_name f) ''_'' then
        (if \<not> pf_spec_ok f then []
         else (case pf_module f of Inl err \<Rightarrow> []
               | Inr cs \<Rightarrow> concat (map (class_instances ctx) (reached ctx cs))))
        else file_instances ctx f) (fst acc)
    \<and> set (snd acc) \<subseteq> set (snd (snd (load_file ctx f acc)))"
proof (cases "pf_spec_ok f")
  case False
  then show ?thesis by (auto simp: load_file_def file_instances_def)
next
  case True
  show ?thesis
  proof (cases "pf_module f")
    case (Inl err)
    with True show ?thesis by (simp add: load_file_def file_instances_def)
  next
    case (Inr cs)
    with True collect_through [of ctx "pf_name f" cs acc] show ?thesis
      by (simp add: load_file_def file_instances_def)
  qed
qed

lemma fst_load_one:
  "fst (load_one ctx f acc) = fold keep_first (file_instances ctx f) (fst acc)"
proof (cases "startswith (pf_name f) ''_''")
  case True
  then show ?thesis by (simp add: load_one_def file_instances_def)
next
  case False
  with load_one_tried [OF False, of ctx acc] load_file_through [of ctx f acc]
  show ?thesis by simp
qed

lemma load_one_log: "set (snd acc) \<subseteq> set (snd (load_one ctx f acc))"
proof (cases "startswith (pf_name f) ''_''")
  case True
  then show ?thesis by (simp add: load_one_def)
next
  case False
  with load_one_tried [OF False, of ctx acc] load_file_through [of ctx f acc]
  show ?thesis by blast
qed

lemma load_one_import_line:
  "\<not> startswith (pf_name f) ''_'' \<Longrightarrow> pf_spec_ok f \<Longrightarrow> pf_module f = Inl err \<Longrightarrow>
    import_failure_line (pf_name f) err \<in> set (snd (load_one ctx f acc))"
  by (simp add: load_one_def load_file_def)

lemma load_one_construction_line:
  assumes "\<not> startswith (pf_name f) ''_''" "pf_spec_ok f" "pf_module f = Inr cs"
    and "c \<in> set (reached ctx cs)" "is_tool_subclass c" "\<not> is_abstract c"
      "instantiate ctx c = Inl err"
  shows "construction_failure_line (cls_name c) (pf_name f) err \<in> set (snd (load_one ctx f acc))"
  using collect_construction_line [OF assms(5-7) assms(4), of "pf_name f" acc]
    load_one_tried [OF assms(1), of ctx acc] load_file_module [OF assms(2,3), of ctx acc]
  by auto

lemma load_one_duplicate:
  assumes "n \<in> names_of (file_instances ctx f)" "n \<in> names_of (fst acc)"
  shows "duplicate_line n (pf_name f) \<in> set (snd (load_one ctx f acc))"
proof (cases "pf_module f")
  case (Inl err)
  then have "file_instances ctx f = []" by (simp add: file_instances_def)
  with assms(1) show ?thesis by (simp add: names_of_Nil)
next
  case (Inr cs)
  show ?thesis
  proof (cases "startswith (pf_name f) ''_'' \<or> \<not> pf_spec_ok f")
    case True
    then have "file_instances ctx f = []" by (simp add: file_instances_def)
    with assms(1) show ?thesis by (simp add: names_of_Nil)
  next
    case False
    then have tried: "\<not> startswith (pf_name f) ''_''" and ok: "pf_spec_ok f" by simp_all
    from False Inr assms(1)
    have "n \<in> names_of (concat (map (class_instances ctx) (reached ctx cs)))"
      by (simp add: file_instances_def)
    from collect_duplicate [OF this assms(2), of "pf_name f"]
      load_one_tried [OF tried, of ctx acc] load_file_module [OF ok Inr, of ctx acc]
    show ?thesis by auto
  qed
qed

lemma discovered_Nil: "discovered ctx [] = []"
  by (simp add: discovered_def)

lemma discovered_Cons: "discovered ctx (f # fs) = file_instances ctx f @ discovered ctx fs"
  by (simp add: discovered_def)

lemma discovered_append: "discovered ctx (xs @ ys) = discovered ctx xs @ discovered ctx ys"
  by (simp add: discovered_def)

lemma fst_load_files:
  "fst (load_files ctx fs acc) = fold keep_first (discovered ctx fs) (fst acc)"
  by (induction fs arbitrary: acc) (simp_all add: fst_load_one discovered_Nil discovered_Cons)

lemma load_files_log: "set (snd acc) \<subseteq> set (snd (load_files ctx fs acc))"
proof (induction fs arbitrary: acc)
  case Nil
  then show ?case by simp
next
  case (Cons f fs)
  from load_one_log [of acc ctx f] Cons.IH [of "load_one ctx f acc"]
  show ?case by simp
qed

lemma load_files_append:
  "load_files ctx (xs @ ys) acc = load_files ctx ys (load_files ctx xs acc)"
  by (induction xs arbitrary: acc) simp_all

lemma load_files_line:
  assumes "\<And>acc. l \<in> set (snd (load_one ctx f acc))"
  shows "f \<in> set fs \<Longrightarrow> l \<in> set (snd (load_files ctx fs acc))"
proof -
  assume "f \<in> set fs"
  then obtain xs ys where fs: "fs = xs @ f # ys" by (auto dest: split_list)
  from assms [of "load_files ctx xs acc"]
    load_files_log [of "load_one ctx f (load_files ctx xs acc)" ctx ys]
  show ?thesis unfolding fs load_files_append by auto
qed

lemma load_files_duplicate:
  assumes "n \<in> names_of (discovered ctx before)" "n \<in> names_of (file_instances ctx f)"
  shows "duplicate_line n (pf_name f) \<in> set (snd (load_files ctx (before @ f # after) acc))"
proof -
  from assms(1) have "n \<in> names_of (fst (load_files ctx before acc))"
    by (simp add: fst_load_files names_of_fold_keep_first)
  from load_one_duplicate [OF assms(2) this]
    load_files_log [of "load_one ctx f (load_files ctx before acc)" ctx after]
  show ?thesis unfolding load_files_append by auto
qed

lemma load_scan:
  assumes "cache ld = None"
  shows "load (Directory files) ld =
    (Inr (fold keep_first (discovered (plugin_context ld) (sort_key pf_name files)) []),
     ld\<lparr>cache := Some (fold keep_first (discovered (plugin_context ld) (sort_key pf_name files)) [])\<rparr>,
     snd (load_files (plugin_context ld) (sort_key pf_name files) ([], [])))"
proof -
  obtain tools lg where r:
    "load_files (plugin_context ld) (sort_key pf_name files) ([], []) = (tools, lg)"
    by (cases "load_files (plugin_context ld) (sort_key pf_name files) ([], [])")
  from fst_load_files [of "plugin_context ld" "sort_key pf_name files" "([], [])"] r
  have tools: "tools = fold keep_first (discovered (plugin_context ld) (sort_key pf_name files)) []"
    by simp
  from assms r have "load (Directory files) ld = (Inr tools, ld\<lparr>cache := Some tools\<rparr>, lg)"
    by (simp add: load_def)
  with tools r show ?thesis by simp
qed

lemma load_scan_mapping:
  "cache ld = None \<Longrightarrow> fst (load (Directory files) ld) =
    Inr (fold keep_first (discovered (plugin_context ld) (sort_key pf_name files)) [])"
  by (simp add: load_scan)

lemma load_scan_log:
  "cache ld = None \<Longrightarrow> snd (snd (load (Directory files) ld)) =
    snd (load_files (plugin_context ld) (sort_key pf_name files) ([], []))"
  by (simp add: load_scan)

subsection \<open>Keys are names\<close>

lemma keyed_by_name_append:
  "keyed_by_name (xs @ ys) \<longleftrightarrow> keyed_by_name xs \<and> keyed_by_name ys"
  by (simp add: keyed_by_name_def)

lemma keyed_by_name_keep_first:
  "keyed_by_name tools \<Longrightarrow> keyed_by_name [item] \<Longrightarrow> keyed_by_name (keep_first item tools)"
  by (simp add: keep_first_append keyed_by_name_append)

lemma keyed_by_name_fold:
  "keyed_by_name tools \<Longrightarrow> keyed_by_name items \<Longrightarrow> keyed_by_name (fold keep_first items tools)"
proof (induction items arbitrary: tools)
  case Nil
  then show ?case by simp
next
  case (Cons item items)
  from Cons.prems(2) have "keyed_by_name [item]" "keyed_by_name items"
    by (simp_all add: keyed_by_name_def)
  with Cons.prems(1) show ?case
    by (simp add: Cons.IH keyed_by_name_keep_first)
qed

lemma keyed_class_instances: "keyed_by_name (class_instances ctx c)"
  by (simp add: class_instances_def keyed_by_name_def split: sum.splits plugin_instance.splits)

lemma keyed_concat:
  "(\<And>x. x \<in> set xs \<Longrightarrow> keyed_by_name (g x)) \<Longrightarrow> keyed_by_name (concat (map g xs))"
  by (induction xs) (simp_all add: keyed_by_name_append, simp add: keyed_by_name_def)

lemma keyed_file_instances: "keyed_by_name (file_instances ctx f)"
proof (cases "pf_module f")
  case (Inl err)
  then show ?thesis by (simp add: file_instances_def keyed_by_name_def)
next
  case (Inr cs)
  have "keyed_by_name (concat (map (class_instances ctx) (reached ctx cs)))"
    by (rule keyed_concat) (rule keyed_class_instances)
  with Inr show ?thesis by (simp add: file_instances_def keyed_by_name_def)
qed

lemma keyed_discovered: "keyed_by_name (discovered ctx fs)"
  unfolding discovered_def by (rule keyed_concat) (rule keyed_file_instances)

lemma keyed_load:
  assumes "cache_keyed ld" and "fst (load dir ld) = Inr tools"
  shows "keyed_by_name tools"
proof (cases "cache ld")
  case (Some cached)
  with assms show ?thesis by (simp add: load_def cache_keyed_def)
next
  case None
  show ?thesis
  proof (cases dir)
    case NotADirectory
    with None assms(2) show ?thesis by (auto simp: load_def keyed_by_name_def)
  next
    case (Unreadable err)
    with None assms(2) show ?thesis by (simp add: load_def)
  next
    case (Directory files)
    have "keyed_by_name (fold keep_first (discovered (plugin_context ld) (sort_key pf_name files)) [])"
      by (rule keyed_by_name_fold) (simp add: keyed_by_name_def, rule keyed_discovered)
    with assms(2) show ?thesis
      unfolding Directory load_scan_mapping [OF None] by simp
  qed
qed

subsection \<open>Merging into a registry\<close>

lemma register_items_keeps:
  "keyed_by_name items \<Longrightarrow> has registry n \<Longrightarrow>
    map_of (fst (register_items items (registry, lg))) n = map_of registry n"
proof (induction items arbitrary: registry lg)
  case Nil
  then show ?case by simp
next
  case (Cons item items)
  obtain name t where item: "item = (name, t)" by (cases item)
  from Cons.prems(1) have key: "tool_name t = name" and rest: "keyed_by_name items"
    by (simp_all add: item keyed_by_name_def)
  show ?case
  proof (cases "has registry name")
    case True
    then show ?thesis
      using Cons.IH [OF rest Cons.prems(2)] by (simp add: item)
  next
    case False
    with Cons.prems(2) have ne: "n \<noteq> name" by blast
    from Cons.prems(2) ne key have h: "has (register t registry) n"
      by (simp add: has_def register_def update_conv')
    from ne key have m: "map_of (register t registry) n = map_of registry n"
      by (simp add: register_def update_conv')
    from Cons.IH [OF rest h, of "lg @ [(INFO, ''Registered plugin tool '{}'' @ [CHR 0x27], [name])]"]
      m False
    show ?thesis by (simp add: item)
  qed
qed

lemma register_into_keeps:
  assumes "cache_keyed ld" and "has registry n"
  shows "map_of (fst (register_into dir ld registry)) n = map_of registry n"
proof -
  obtain out ld' lg where l: "load dir ld = (out, ld', lg)"
    by (cases "load dir ld")
  show ?thesis
  proof (cases out)
    case (Inl err)
    with l show ?thesis by (simp add: register_into_def)
  next
    case (Inr items)
    with l have "fst (load dir ld) = Inr items" by simp
    from keyed_load [OF assms(1) this] have k: "keyed_by_name items" .
    obtain registry' lg' where r: "register_items items (registry, lg) = (registry', lg')"
      by (cases "register_items items (registry, lg)")
    from register_items_keeps [OF k assms(2), of lg] r
    have "map_of registry' n = map_of registry n" by simp
    with l r Inr show ?thesis by (simp add: register_into_def)
  qed
qed

subsection \<open>The order of the files\<close>

lemma names_of_discovered:
  "names_of (discovered ctx fs) = (\<Union>f\<in>set fs. names_of (file_instances ctx f))"
  by (induction fs) (simp_all add: discovered_Nil discovered_Cons names_of_Nil names_of_append)

lemma first_provider:
  fixes k :: "'a \<Rightarrow> 'b::linorder"
  assumes sorted: "sorted (map k xs)" and inj: "inj_on k (set xs)" and mem: "f1 \<in> set xs"
    and least: "\<And>f. f \<in> set xs \<Longrightarrow> P f \<Longrightarrow> k f1 \<le> k f"
  shows "\<exists>before after. xs = before @ f1 # after \<and> (\<forall>f\<in>set before. \<not> P f)"
proof -
  from mem obtain before after where xs: "xs = before @ f1 # after" and nb: "f1 \<notin> set before"
    by (auto dest: split_list_first)
  have "\<not> P f" if f: "f \<in> set before" for f
  proof
    assume "P f"
    with f have "k f1 \<le> k f" by (intro least) (simp_all add: xs)
    moreover from sorted f have "k f \<le> k f1" by (simp add: xs sorted_append)
    ultimately have "k f = k f1" by simp
    with inj f have "f = f1" by (auto simp: xs inj_on_def)
    with f nb show False by simp
  qed
  with xs show ?thesis by blast
qed

lemma later_provider:
  fixes k :: "'a \<Rightarrow> 'b::linorder"
  assumes sorted: "sorted (map k xs)" and f1: "f1 \<in> set xs" and f2: "f2 \<in> set xs"
    and lt: "k f1 < k f2"
  shows "\<exists>before after. xs = before @ f2 # after \<and> f1 \<in> set before"
proof -
  from f2 obtain before after where xs: "xs = before @ f2 # after"
    by (auto dest: split_list)
  from lt have ne: "f1 \<noteq> f2" by auto
  have "f1 \<notin> set after"
  proof
    assume "f1 \<in> set after"
    with sorted have "k f2 \<le> k f1" by (simp add: xs sorted_append)
    with lt show False by simp
  qed
  with f1 ne have "f1 \<in> set before" by (simp add: xs)
  with xs show ?thesis by blast
qed

lemma first_file_wins:
  assumes fresh: "cache ld = None"
    and names: "distinct (map pf_name files)"
    and f1: "f1 \<in> set files" "map_of (file_instances (plugin_context ld) f1) n = Some t1"
    and first: "\<And>f. f \<in> set files \<Longrightarrow> n \<in> names_of (file_instances (plugin_context ld) f) \<Longrightarrow>
        pf_name f1 \<le> pf_name f"
  shows "\<exists>tools. fst (load (Directory files) ld) = Inr tools \<and> map_of tools n = Some t1"
proof -
  let ?ctx = "plugin_context ld"
  let ?xs = "sort_key pf_name files"
  from names have inj: "inj_on pf_name (set ?xs)" by (simp add: distinct_map)
  have "\<exists>before after. ?xs = before @ f1 # after
      \<and> (\<forall>f\<in>set before. \<not> n \<in> names_of (file_instances ?ctx f))"
    using f1(1) first by (intro first_provider [OF _ inj]) simp_all
  then obtain before after where xs: "?xs = before @ f1 # after"
    and none: "\<forall>f\<in>set before. n \<notin> names_of (file_instances ?ctx f)"
    by blast
  from none have "n \<notin> names_of (discovered ?ctx before)"
    by (simp add: names_of_discovered)
  then have "map_of (discovered ?ctx before) n = None"
    by (simp add: map_of_None_names)
  with f1(2) have "map_of (discovered ?ctx ?xs) n = Some t1"
    unfolding xs by (simp add: discovered_append discovered_Cons map_add_def)
  then have "map_of (fold keep_first (discovered ?ctx ?xs) []) n = Some t1"
    unfolding map_of_fold_keep_first by simp
  with load_scan_mapping [OF fresh, of files] show ?thesis by blast
qed

lemma later_file_dropped:
  assumes fresh: "cache ld = None"
    and f1: "f1 \<in> set files" "n \<in> names_of (file_instances (plugin_context ld) f1)"
    and f2: "f2 \<in> set files" "n \<in> names_of (file_instances (plugin_context ld) f2)"
    and lt: "pf_name f1 < pf_name f2"
  shows "duplicate_line n (pf_name f2) \<in> set (snd (snd (load (Directory files) ld)))"
proof -
  let ?ctx = "plugin_context ld"
  let ?xs = "sort_key pf_name files"
  have "\<exists>before after. ?xs = before @ f2 # after \<and> f1 \<in> set before"
    using f1(1) f2(1) lt by (intro later_provider) simp_all
  then obtain before after where xs: "?xs = before @ f2 # after" and b: "f1 \<in> set before"
    by blast
  from b f1(2) have "n \<in> names_of (discovered ?ctx before)"
    by (auto simp: names_of_discovered)
  from load_files_duplicate [OF this f2(2), of after "([], [])"]
  show ?thesis
    unfolding load_scan_log [OF fresh] xs .
qed

subsection \<open>Leaving out what fails\<close>

lemma insort_key_map:
  fixes k :: "'a \<Rightarrow> 'b::linorder"
  assumes "\<And>y. k (w y) = k y"
  shows "insort_key k (w x) (map w xs) = map w (insort_key k x xs)"
  by (induction xs) (simp_all add: assms)

lemma sort_key_map:
  fixes k :: "'a \<Rightarrow> 'b::linorder"
  assumes "\<And>y. k (w y) = k y"
  shows "sort_key k (map w xs) = map w (sort_key k xs)"
  by (induction xs) (simp_all add: insort_key_map [of k w, OF assms])

lemma concat_filter:
  "(\<And>x. x \<in> set xs \<Longrightarrow> \<not> P x \<Longrightarrow> g x = []) \<Longrightarrow>
    concat (map g (filter P xs)) = concat (map g xs)"
  by (induction xs) simp_all

lemma pf_name_without_failing_classes: "pf_name (without_failing_classes ctx f) = pf_name f"
  by (simp add: without_failing_classes_def split: sum.splits)

lemma class_instances_failing: "construction_raises ctx c \<Longrightarrow> class_instances ctx c = []"
  by (simp add: construction_raises_def class_instances_def split: sum.splits)

lemma construction_raises_not_name: "construction_raises ctx c \<Longrightarrow> \<not> name_raises ctx c"
  by (simp add: construction_raises_def name_raises_def split: sum.splits)

lemma name_raises_instances: "name_raises ctx c \<Longrightarrow> class_instances ctx c = []"
  by (simp add: name_raises_def class_instances_def split: sum.splits plugin_instance.splits)

lemma reached_without_failing:
  "concat (map (class_instances ctx)
      (reached ctx (filter (\<lambda>c. \<not> construction_raises ctx c) cs))) =
    concat (map (class_instances ctx) (reached ctx cs))"
proof (induction cs)
  case Nil
  then show ?case by simp
next
  case (Cons c cs)
  show ?case
  proof (cases "construction_raises ctx c")
    case True
    with Cons.IH construction_raises_not_name [OF True] class_instances_failing [OF True]
    show ?thesis by (simp add: reached_def)
  next
    case False
    with Cons.IH show ?thesis by (simp add: reached_def)
  qed
qed

lemma file_instances_without_failing_classes:
  "file_instances ctx (without_failing_classes ctx f) = file_instances ctx f"
proof (cases "pf_module f")
  case (Inl err)
  then show ?thesis by (simp add: without_failing_classes_def)
next
  case (Inr cs)
  with reached_without_failing [of ctx cs] show ?thesis
    by (simp add: without_failing_classes_def file_instances_def)
qed

lemma file_instances_import_raises: "import_raises f \<Longrightarrow> file_instances ctx f = []"
  by (simp add: import_raises_def file_instances_def split: sum.splits)

lemma discovered_without_failures:
  "discovered ctx (map (without_failing_classes ctx) (filter (\<lambda>f. \<not> import_raises f) fs)) =
    discovered ctx fs"
proof -
  have "concat (map (file_instances ctx) (filter (\<lambda>f. \<not> import_raises f) fs)) =
      concat (map (file_instances ctx) fs)"
    by (rule concat_filter) (simp add: file_instances_import_raises)
  then show ?thesis
    by (simp add: discovered_def comp_def file_instances_without_failing_classes)
qed

lemma load_without_failures:
  assumes fresh: "cache ld = None"
  shows "fst (load (Directory (map (without_failing_classes (plugin_context ld))
        (filter (\<lambda>f. \<not> import_raises f) files))) ld) = fst (load (Directory files) ld)"
proof -
  let ?ctx = "plugin_context ld"
  have "sort_key pf_name (map (without_failing_classes ?ctx) (filter (\<lambda>f. \<not> import_raises f) files))
      = map (without_failing_classes ?ctx) (filter (\<lambda>f. \<not> import_raises f) (sort_key pf_name files))"
    by (simp add: sort_key_map pf_name_without_failing_classes filter_sort)
  then show ?thesis
    unfolding load_scan_mapping [OF fresh] by (simp add: discovered_without_failures)
qed

lemma contributed_returned:
  "f \<in> set files \<Longrightarrow>
    names_of (file_instances ctx f)
      \<subseteq> names_of (fold keep_first (discovered ctx (sort_key pf_name files)) [])"
  unfolding names_of_fold_keep_first names_of_discovered by auto

lemma reached_contributes:
  assumes "\<not> startswith (pf_name f) ''_''" "pf_spec_ok f" "pf_module f = Inr cs"
    and "c \<in> set (reached ctx cs)" "is_tool_subclass c" "\<not> is_abstract c"
      "instantiate ctx c = Inr (Named t)"
  shows "tool_name t \<in> names_of (file_instances ctx f)"
proof -
  from assms(5-7) have "(tool_name t, t) \<in> set (class_instances ctx c)"
    by (simp add: class_instances_def)
  with assms(4) have "(tool_name t, t) \<in> set (concat (map (class_instances ctx) (reached ctx cs)))"
    by auto
  with assms(1-3) have "(tool_name t, t) \<in> set (file_instances ctx f)"
    by (simp add: file_instances_def)
  then have "fst (tool_name t, t) \<in> fst ` set (file_instances ctx f)"
    by (rule imageI)
  then show ?thesis by (simp add: names_of_def)
qed

lemma import_failure_logged:
  assumes fresh: "cache ld = None" and f: "f \<in> set files"
    and eligible: "\<not> startswith (pf_name f) ''_''" "pf_spec_ok f"
    and raises: "pf_module f = Inl err"
  shows "import_failure_line (pf_name f) err \<in> set (snd (snd (load (Directory files) ld)))"
  unfolding load_scan_log [OF fresh]
  by (rule load_files_line) (rule load_one_import_line [OF eligible raises], simp add: f)

lemma construction_failure_logged:
  assumes fresh: "cache ld = None" and f: "f \<in> set files"
    and eligible: "\<not> startswith (pf_name f) ''_''" "pf_spec_ok f" "pf_module f = Inr cs"
    and c: "c \<in> set (reached (plugin_context ld) cs)" "is_tool_subclass c" "\<not> is_abstract c"
    and raises: "instantiate (plugin_context ld) c = Inl err"
  shows "construction_failure_line (cls_name c) (pf_name f) err
    \<in> set (snd (snd (load (Directory files) ld)))"
  unfolding load_scan_log [OF fresh]
  by (rule load_files_line) (rule load_one_construction_line [OF eligible c raises], simp add: f)

lemma load_cached: "cache ld = Some cached \<Longrightarrow> load dir ld = (Inr cached, ld, [])"
  by (simp add: load_def)

lemma load_returns_cached:
  "fst (load dir ld) = Inr tools \<Longrightarrow> cache (fst (snd (load dir ld))) = Some tools"
  by (auto simp: load_def split: option.splits tools_dir.splits prod.splits)

lemma load_raises_unchanged:
  "fst (load dir ld) = Inl err \<Longrightarrow> fst (snd (load dir ld)) = ld"
  by (auto simp: load_def split: option.splits tools_dir.splits prod.splits)

subsection \<open>The claims on the loader\<close>

text \<open>
  C9. A call of \<open>load\<close> that returns a mapping leaves a loader on which every later call,
  whatever the directory holds by then, returns that mapping, leaves the loader as it
  is and logs nothing: the directory is not scanned again. (A call that raises, which
  returns no mapping, leaves the loader as it was.)
\<close>

theorem load_memoized:
  "load dir' (fst (snd (load dir ld))) =
    (case fst (load dir ld) of
       Inr tools \<Rightarrow> (Inr tools, fst (snd (load dir ld)), [])
     | Inl err \<Rightarrow> load dir' ld)"
proof (cases "fst (load dir ld)")
  case (Inl err)
  with load_raises_unchanged [OF Inl] show ?thesis by simp
next
  case (Inr tools)
  with load_cached [OF load_returns_cached [OF Inr], of dir'] show ?thesis by simp
qed

text \<open>
  C7. Merging into a registry leaves every name the registry already has mapped to the
  tool it was mapped to. And when a newly made loader scans a directory of files with
  different names, and \<open>f1\<close> is the file whose name is least among the files that define
  a tool named \<open>n\<close>, the mapping returned gives \<open>n\<close> the tool of \<open>f1\<close>, and for every other
  file that defines a tool named \<open>n\<close> the line for a duplicate name is logged.
\<close>

theorem name_collision_policy:
  assumes keyed: "cache_keyed ld"
    and fresh: "cache ld0 = None"
    and names: "distinct (map pf_name files)"
    and f1: "f1 \<in> set files" "map_of (file_instances (plugin_context ld0) f1) n = Some t1"
    and first: "\<forall>f\<in>set files. n \<in> names_of (file_instances (plugin_context ld0) f) \<longrightarrow>
        pf_name f1 \<le> pf_name f"
  shows "(\<forall>b. has registry b \<longrightarrow>
        map_of (fst (register_into dir ld registry)) b = map_of registry b)
    \<and> (\<exists>tools. fst (load (Directory files) ld0) = Inr tools \<and> map_of tools n = Some t1)
    \<and> (\<forall>f2\<in>set files.
        pf_name f2 \<noteq> pf_name f1 \<and> n \<in> names_of (file_instances (plugin_context ld0) f2) \<longrightarrow>
        duplicate_line n (pf_name f2) \<in> set (snd (snd (load (Directory files) ld0))))"
proof (intro conjI allI impI ballI)
  fix b
  assume "has registry b"
  with keyed show "map_of (fst (register_into dir ld registry)) b = map_of registry b"
    by (rule register_into_keeps)
next
  from first show "\<exists>tools. fst (load (Directory files) ld0) = Inr tools \<and> map_of tools n = Some t1"
    by (intro first_file_wins [OF fresh names f1]) blast
next
  fix f2
  assume f2: "f2 \<in> set files"
    and other: "pf_name f2 \<noteq> pf_name f1 \<and> n \<in> names_of (file_instances (plugin_context ld0) f2)"
  from f1(2) have n1: "n \<in> names_of (file_instances (plugin_context ld0) f1)"
    using map_of_None_names [of "file_instances (plugin_context ld0) f1" n] by simp
  from first f2 other have "pf_name f1 \<le> pf_name f2" by blast
  with other have "pf_name f1 < pf_name f2" by (auto simp: less_le)
  with other show "duplicate_line n (pf_name f2) \<in> set (snd (snd (load (Directory files) ld0)))"
    by (intro later_file_dropped [OF fresh f1(1) n1 f2]) simp_all
qed

theorem name_collision_policy_witness:
  "has builtins0 ''exec''
   \<and> map_of (fst (register_into tools_dir0 loader0 builtins0)) ''exec'' =
       Some (ExecTool ''/w'' 60 False)
   \<and> fst (load tools_dir0 loader0) =
       Inr [(''dice'', PluginTool ''dice'' ''a.Dice''), (''exec'', PluginTool ''exec'' ''a.Exec'')]
   \<and> duplicate_line ''dice'' ''b.py'' \<in> set (snd (snd (load tools_dir0 loader0)))"
proof -
  let ?files = "[file_b, file_a, file_base, file_z]"
  have keyed: "cache_keyed loader0"
    by (simp add: cache_keyed_def loader0_def)
  have fresh: "cache loader0 = None"
    by (simp add: loader0_def)
  have names: "distinct (map pf_name ?files)"
    by code_simp
  have f1: "file_a \<in> set ?files"
    by simp
  have t1: "map_of (file_instances (plugin_context loader0) file_a) ''dice'' =
      Some (PluginTool ''dice'' ''a.Dice'')"
    by code_simp
  have first: "\<forall>f\<in>set ?files. ''dice'' \<in> names_of (file_instances (plugin_context loader0) f) \<longrightarrow>
      pf_name file_a \<le> pf_name f"
    by code_simp
  have built_in: "has builtins0 ''exec''"
    by code_simp
  have exec: "map_of builtins0 ''exec'' = Some (ExecTool ''/w'' 60 False)"
    by code_simp
  have f2: "file_b \<in> set ?files"
    by simp
  have other: "pf_name file_b \<noteq> pf_name file_a
      \<and> ''dice'' \<in> names_of (file_instances (plugin_context loader0) file_b)"
    by code_simp
  have name_b: "pf_name file_b = ''b.py''"
    by (simp add: file_b_def)
  have loaded: "fst (load tools_dir0 loader0) =
      Inr [(''dice'', PluginTool ''dice'' ''a.Dice''), (''exec'', PluginTool ''exec'' ''a.Exec'')]"
    by code_simp
  from name_collision_policy [OF keyed fresh names f1 t1 first, of builtins0 tools_dir0]
  have kept: "\<forall>b. has builtins0 b \<longrightarrow>
      map_of (fst (register_into tools_dir0 loader0 builtins0)) b = map_of builtins0 b"
    and dropped: "\<forall>f2\<in>set ?files.
      pf_name f2 \<noteq> pf_name file_a
        \<and> ''dice'' \<in> names_of (file_instances (plugin_context loader0) f2) \<longrightarrow>
      duplicate_line ''dice'' (pf_name f2) \<in> set (snd (snd (load (Directory ?files) loader0)))"
    by blast+
  from kept built_in exec
  have a: "map_of (fst (register_into tools_dir0 loader0 builtins0)) ''exec'' =
      Some (ExecTool ''/w'' 60 False)"
    by simp
  from dropped f2 other
  have "duplicate_line ''dice'' (pf_name file_b) \<in> set (snd (snd (load (Directory ?files) loader0)))"
    by blast
  then have d: "duplicate_line ''dice'' ''b.py'' \<in> set (snd (snd (load tools_dir0 loader0)))"
    unfolding name_b tools_dir0_def .
  from built_in a loaded d show ?thesis by blast
qed

text \<open>
  C8, as amended. For a newly made loader: when \<open>is_dir()\<close> says the tools directory is
  not a directory, \<open>load\<close> returns the empty mapping and caches it; when \<open>is_dir()\<close> raises,
  \<open>load\<close> raises and caches nothing. Otherwise \<open>load\<close> returns a mapping, which is the one
  it returns for the directory without the files whose import raises and without the
  classes whose construction raises; it holds every name that a file of the directory
  contributes; and for every file it tries, the line for the failure is logged if the
  import raises, and for each concrete class of the file that the loop reaches (no
  class before it fails on reading its name) the line for a failed construction is
  logged if its construction raises, and its name is in the mapping if an instance is
  made and named.
\<close>

theorem load_isolates_failures:
  assumes fresh: "cache ld = None"
  shows "load NotADirectory ld = (Inr [], ld\<lparr>cache := Some []\<rparr>, [])
    \<and> load (Unreadable err) ld = (Inl err, ld, [])
    \<and> (\<exists>tools lg.
        load (Directory files) ld = (Inr tools, ld\<lparr>cache := Some tools\<rparr>, lg)
        \<and> fst (load (Directory (map (without_failing_classes (plugin_context ld))
            (filter (\<lambda>f. \<not> import_raises f) files))) ld) = Inr tools
        \<and> (\<forall>f\<in>set files. names_of (file_instances (plugin_context ld) f) \<subseteq> names_of tools)
        \<and> (\<forall>f\<in>set files. \<not> startswith (pf_name f) ''_'' \<and> pf_spec_ok f \<longrightarrow>
            (\<forall>e. pf_module f = Inl e \<longrightarrow> import_failure_line (pf_name f) e \<in> set lg)
            \<and> (\<forall>cs. pf_module f = Inr cs \<longrightarrow>
                (\<forall>c\<in>set (reached (plugin_context ld) cs).
                  is_tool_subclass c \<and> \<not> is_abstract c \<longrightarrow>
                  (\<forall>e. instantiate (plugin_context ld) c = Inl e \<longrightarrow>
                    construction_failure_line (cls_name c) (pf_name f) e \<in> set lg)
                  \<and> (\<forall>t. instantiate (plugin_context ld) c = Inr (Named t) \<longrightarrow>
                    tool_name t \<in> names_of tools)))))"
proof (intro conjI)
  let ?ctx = "plugin_context ld"
  let ?tools = "fold keep_first (discovered ?ctx (sort_key pf_name files)) []"
  let ?lg = "snd (load_files ?ctx (sort_key pf_name files) ([], []))"
  from fresh show "load NotADirectory ld = (Inr [], ld\<lparr>cache := Some []\<rparr>, [])"
    by (simp add: load_def)
  from fresh show "load (Unreadable err) ld = (Inl err, ld, [])"
    by (simp add: load_def)
  have scan: "load (Directory files) ld = (Inr ?tools, ld\<lparr>cache := Some ?tools\<rparr>, ?lg)"
    by (rule load_scan [OF fresh])
  then have lg: "snd (snd (load (Directory files) ld)) = ?lg" by simp
  have same: "fst (load (Directory (map (without_failing_classes ?ctx)
        (filter (\<lambda>f. \<not> import_raises f) files))) ld) = Inr ?tools"
    unfolding load_without_failures [OF fresh] by (simp add: scan)
  have held: "\<forall>f\<in>set files. names_of (file_instances ?ctx f) \<subseteq> names_of ?tools"
    by (intro ballI contributed_returned)
  have logged: "\<forall>f\<in>set files. \<not> startswith (pf_name f) ''_'' \<and> pf_spec_ok f \<longrightarrow>
      (\<forall>e. pf_module f = Inl e \<longrightarrow> import_failure_line (pf_name f) e \<in> set ?lg)
      \<and> (\<forall>cs. pf_module f = Inr cs \<longrightarrow>
          (\<forall>c\<in>set (reached ?ctx cs).
            is_tool_subclass c \<and> \<not> is_abstract c \<longrightarrow>
            (\<forall>e. instantiate ?ctx c = Inl e \<longrightarrow>
              construction_failure_line (cls_name c) (pf_name f) e \<in> set ?lg)
            \<and> (\<forall>t. instantiate ?ctx c = Inr (Named t) \<longrightarrow> tool_name t \<in> names_of ?tools)))"
  proof (intro conjI allI impI ballI)
    fix f e
    assume "f \<in> set files" "\<not> startswith (pf_name f) ''_'' \<and> pf_spec_ok f" "pf_module f = Inl e"
    then have "import_failure_line (pf_name f) e \<in> set (snd (snd (load (Directory files) ld)))"
      by (intro import_failure_logged [OF fresh]) simp_all
    then show "import_failure_line (pf_name f) e \<in> set ?lg"
      unfolding lg .
  next
    fix f cs c e
    assume "f \<in> set files" "\<not> startswith (pf_name f) ''_'' \<and> pf_spec_ok f" "pf_module f = Inr cs"
      "c \<in> set (reached ?ctx cs)" "is_tool_subclass c \<and> \<not> is_abstract c"
      "instantiate ?ctx c = Inl e"
    then have "construction_failure_line (cls_name c) (pf_name f) e
        \<in> set (snd (snd (load (Directory files) ld)))"
      by (intro construction_failure_logged [OF fresh, of f files cs c e]) simp_all
    then show "construction_failure_line (cls_name c) (pf_name f) e \<in> set ?lg"
      unfolding lg .
  next
    fix f cs c t
    assume f: "f \<in> set files" and "\<not> startswith (pf_name f) ''_'' \<and> pf_spec_ok f"
      "pf_module f = Inr cs" "c \<in> set (reached ?ctx cs)"
      "is_tool_subclass c \<and> \<not> is_abstract c" "instantiate ?ctx c = Inr (Named t)"
    then have "tool_name t \<in> names_of (file_instances ?ctx f)"
      by (intro reached_contributes [of f cs c ?ctx t]) simp_all
    with contributed_returned [OF f, of ?ctx] show "tool_name t \<in> names_of ?tools"
      by blast
  qed
  show "\<exists>tools lg.
      load (Directory files) ld = (Inr tools, ld\<lparr>cache := Some tools\<rparr>, lg)
      \<and> fst (load (Directory (map (without_failing_classes (plugin_context ld))
          (filter (\<lambda>f. \<not> import_raises f) files))) ld) = Inr tools
      \<and> (\<forall>f\<in>set files. names_of (file_instances (plugin_context ld) f) \<subseteq> names_of tools)
      \<and> (\<forall>f\<in>set files. \<not> startswith (pf_name f) ''_'' \<and> pf_spec_ok f \<longrightarrow>
          (\<forall>e. pf_module f = Inl e \<longrightarrow> import_failure_line (pf_name f) e \<in> set lg)
          \<and> (\<forall>cs. pf_module f = Inr cs \<longrightarrow>
              (\<forall>c\<in>set (reached (plugin_context ld) cs).
                is_tool_subclass c \<and> \<not> is_abstract c \<longrightarrow>
                (\<forall>e. instantiate (plugin_context ld) c = Inl e \<longrightarrow>
                  construction_failure_line (cls_name c) (pf_name f) e \<in> set lg)
                \<and> (\<forall>t. instantiate (plugin_context ld) c = Inr (Named t) \<longrightarrow>
                  tool_name t \<in> names_of tools))))"
    by (rule exI [of _ ?tools], rule exI [of _ ?lg], intro conjI)
      (rule scan, rule same, rule held, rule logged)
qed

theorem load_isolates_failures_witness:
  "load NotADirectory loader0 = (Inr [], loader0\<lparr>cache := Some []\<rparr>, [])
   \<and> load (Unreadable ''Permission denied'') loader0 = (Inl ''Permission denied'', loader0, [])
   \<and> fst (load tools_dir0 loader0) =
       Inr [(''dice'', PluginTool ''dice'' ''a.Dice''), (''exec'', PluginTool ''exec'' ''a.Exec'')]
   \<and> import_failure_line ''Z.py'' ''boom'' \<in> set (snd (snd (load tools_dir0 loader0)))
   \<and> construction_failure_line ''Broken'' ''a.py'' ''no key''
       \<in> set (snd (snd (load tools_dir0 loader0)))"
proof -
  let ?files = "[file_b, file_a, file_base, file_z]"
  let ?ctx = "plugin_context loader0"
  have fresh: "cache loader0 = None"
    by (simp add: loader0_def)
  note facts = load_isolates_failures [OF fresh, of "''Permission denied''" ?files]
  from facts have missing: "load NotADirectory loader0 = (Inr [], loader0\<lparr>cache := Some []\<rparr>, [])"
    by blast
  from facts have denied:
    "load (Unreadable ''Permission denied'') loader0 = (Inl ''Permission denied'', loader0, [])"
    by blast
  from facts obtain tools lg
    where scan: "load (Directory ?files) loader0 = (Inr tools, loader0\<lparr>cache := Some tools\<rparr>, lg)"
      and same: "fst (load (Directory (map (without_failing_classes ?ctx)
        (filter (\<lambda>f. \<not> import_raises f) ?files))) loader0) = Inr tools"
      and logged: "\<forall>f\<in>set ?files. \<not> startswith (pf_name f) ''_'' \<and> pf_spec_ok f \<longrightarrow>
        (\<forall>e. pf_module f = Inl e \<longrightarrow> import_failure_line (pf_name f) e \<in> set lg)
        \<and> (\<forall>cs. pf_module f = Inr cs \<longrightarrow>
            (\<forall>c\<in>set (reached ?ctx cs).
              is_tool_subclass c \<and> \<not> is_abstract c \<longrightarrow>
              (\<forall>e. instantiate ?ctx c = Inl e \<longrightarrow>
                construction_failure_line (cls_name c) (pf_name f) e \<in> set lg)
              \<and> (\<forall>t. instantiate ?ctx c = Inr (Named t) \<longrightarrow> tool_name t \<in> names_of tools)))"
    by blast
  from scan have lg: "snd (snd (load tools_dir0 loader0)) = lg"
    and returned: "fst (load tools_dir0 loader0) = Inr tools"
    by (simp_all add: tools_dir0_def)
  have "fst (load (Directory (map (without_failing_classes ?ctx)
        (filter (\<lambda>f. \<not> import_raises f) ?files))) loader0) =
      Inr [(''dice'', PluginTool ''dice'' ''a.Dice''), (''exec'', PluginTool ''exec'' ''a.Exec'')]"
    by code_simp
  with same returned have mapping: "fst (load tools_dir0 loader0) =
      Inr [(''dice'', PluginTool ''dice'' ''a.Dice''), (''exec'', PluginTool ''exec'' ''a.Exec'')]"
    by simp
  have z: "file_z \<in> set ?files" "\<not> startswith (pf_name file_z) ''_'' \<and> pf_spec_ok file_z"
      "pf_module file_z = Inl ''boom''" "pf_name file_z = ''Z.py''"
    by (simp_all add: file_z_def startswith_def)
  from logged z(1-3) have "import_failure_line (pf_name file_z) ''boom'' \<in> set lg"
    by blast
  then have import: "import_failure_line ''Z.py'' ''boom'' \<in> set (snd (snd (load tools_dir0 loader0)))"
    unfolding z(4) lg .
  let ?cs = "[broken_class, plain_class ''a.Dice'' ''dice'', plain_class ''a.Exec'' ''exec'']"
  have a: "file_a \<in> set ?files" "\<not> startswith (pf_name file_a) ''_'' \<and> pf_spec_ok file_a"
      "pf_module file_a = Inr ?cs" "pf_name file_a = ''a.py''"
    by (simp_all add: file_a_def startswith_def)
  have broken: "instantiate ?ctx broken_class = Inl ''no key''"
    by (simp add: broken_class_def instantiate_def)
  then have "\<not> name_raises ?ctx broken_class"
    by (simp add: name_raises_def)
  then have b: "broken_class \<in> set (reached ?ctx ?cs)"
      "is_tool_subclass broken_class \<and> \<not> is_abstract broken_class"
      "cls_name broken_class = ''Broken''"
    by (simp_all add: reached_def broken_class_def)
  from logged a(1-3) b(1,2) broken
  have "construction_failure_line (cls_name broken_class) (pf_name file_a) ''no key'' \<in> set lg"
    by blast
  then have construction: "construction_failure_line ''Broken'' ''a.py'' ''no key''
      \<in> set (snd (snd (load tools_dir0 loader0)))"
    unfolding a(4) b(3) lg .
  from missing denied mapping import construction show ?thesis by blast
qed

text \<open>
  Against C8 as stated, twice: on a tools directory for which \<open>is_dir()\<close> raises, \<open>load\<close>
  raises instead of returning the empty mapping, and caches nothing. And in a file with three
  well-formed concrete classes, the second of which fails when its name is read, the
  third is never loaded, and the file is logged as one that failed to load.
\<close>

theorem load_failure_counterexample:
  "fst (load (Unreadable ''Permission denied'') loader0) = Inl ''Permission denied''
   \<and> cache (fst (snd (load (Unreadable ''Permission denied'') loader0))) = None
   \<and> instantiate (plugin_context loader0) (plain_class ''Third'' ''third'') =
       Inr (Named (PluginTool ''third'' ''Third''))
   \<and> load (Directory [file_c]) loader0 =
       (Inr [(''first'', PluginTool ''first'' ''First'')],
        loader0\<lparr>cache := Some [(''first'', PluginTool ''first'' ''First'')]\<rparr>,
        [import_failure_line ''c.py'' ''no name''])"
  by code_simp

end
